theory Spec2Isabelle
  imports Main "HOL-Library.Word"
begin

section \<open>Seed generation and backup confirmation (firmware/reset.c)\<close>

text \<open>
  A shallow embedding of \<open>src/firmware/reset.c\<close>. The C file keeps its session in
  file-level statics and talks to the rest of the firmware through calls (display, buttons,
  configuration store, host messages). The statics and the configuration store are fields
  of one state record; every call to a collaborator with an outside effect is appended to
  a trace, in program order; every value a collaborator hands back (random bytes, a button
  answer, a digest, a mnemonic, the result of a write) is read from an environment record,
  so that each theorem holds for every behaviour of the collaborators.
\<close>

subsection \<open>Values and collaborator calls\<close>

type_synonym byte = "8 word"

datatype FailureType =
    Failure_UnexpectedMessage
  | Failure_ActionCancelled
  | Failure_ProcessError

datatype ButtonRequestType =
    ButtonRequest_ProtectCall
  | ButtonRequest_ResetDevice
  | ButtonRequest_ConfirmWord

datatype icon = bmp_icon_question | bmp_icon_info

text \<open>
  One constructor per collaborator function that \<open>reset.c\<close> calls for its effect, with the
  arguments of the call. A \<open>const char *\<close> argument that may be \<open>NULL\<close> is a
  \<open>string option\<close>. \<open>LayoutDialogSwipe\<close> carries the icon, the two button texts, the
  description and the six lines; \<open>LayoutResetWord\<close> carries the word, the pass, the word
  position and the last-word flag; \<open>ProtectButton\<close> carries the request type and the
  confirm-only flag.
\<close>

datatype call =
    FsmSendFailure FailureType "string option"
  | FsmSendSuccess string
  | LayoutHome
  | LayoutDialogSwipe icon "string option" "string option" "string option" "string option list"
  | LayoutResetWord string nat nat bool
  | ProtectButton ButtonRequestType bool
  | ProtectChangePin bool
  | ConfigSetPassphraseProtection bool
  | ConfigSetLanguage "string option"
  | ConfigSetLabel "string option"
  | ConfigSetU2FCounter "32 word"
  | ConfigSetNoBackup
  | ConfigSetNeedsBackup bool
  | ConfigSetUnfinishedBackup bool
  | ConfigSetMnemonic string
  | MsgWriteEntropyRequest
  | SessionClear bool
  | MnemonicClear

subsection \<open>State\<close>

text \<open>
  Modelled from the spec: the configuration store (\<open>config.h\<close>, not in the sources) as
  the flags and settings the spec names, each with a setter that stores its argument.
\<close>

record config =
  cfg_passphrase_protection :: bool
  cfg_language :: "string option"
  cfg_label :: "string option"
  cfg_u2f_counter :: "32 word"
  cfg_no_backup :: bool
  cfg_needs_backup :: bool
  cfg_unfinished_backup :: bool
  cfg_mnemonic :: "string option"

text \<open>
  The statics of \<open>reset.c\<close> (\<open>strength\<close>, \<open>int_entropy[32]\<close>, \<open>awaiting_entropy\<close>,
  \<open>skip_backup\<close>, \<open>no_backup\<close>, \<open>current_word[10]\<close>), the configuration store, the
  number of button confirmations requested so far, and the trace of collaborator calls.
\<close>

record state =
  strength :: "32 word"
  int_entropy :: "byte list"
  awaiting_entropy :: bool
  skip_backup :: bool
  no_backup :: bool
  current_word :: "char list"
  cfg :: config
  presses :: nat
  trace :: "call list"

text \<open>
  What the collaborators hand back. \<open>random_bytes\<close> is the output of the random number
  generator by byte index; \<open>button_answer k\<close> is the user's answer to the \<open>k\<close>-th
  confirmation the device ever asks for; \<open>pin_answer\<close> is the outcome of the PIN setup;
  \<open>digest\<close> is the SHA-256 function, \<open>wordlist\<close> is \<open>mnemonic_from_data\<close>, \<open>hex\<close> is
  \<open>data2hex\<close> (all three are in other files of the firmware); \<open>storage_ok\<close> tells
  whether the store accepts a mnemonic.
\<close>

record env =
  random_bytes :: "nat \<Rightarrow> byte"
  button_answer :: "nat \<Rightarrow> bool"
  pin_answer :: bool
  digest :: "byte list \<Rightarrow> byte list"
  wordlist :: "byte list \<Rightarrow> string"
  hex :: "byte list \<Rightarrow> string"
  storage_ok :: "string \<Rightarrow> bool"

subsection \<open>Collaborators\<close>

text \<open>
  Modelled from the spec: host messaging, display and session functions (\<open>fsm.h\<close>,
  \<open>messages.h\<close>, \<open>layout2.h\<close>, \<open>protect.h\<close>, \<open>bip39.h\<close>; none is in the sources) are
  outbound effects whose results \<open>reset.c\<close> never reads: each adds its call to the trace.
\<close>

definition emit :: "call \<Rightarrow> state \<Rightarrow> state" where
  "emit c s = s\<lparr>trace := trace s @ [c]\<rparr>"

definition fsm_sendFailure :: "FailureType \<Rightarrow> string option \<Rightarrow> state \<Rightarrow> state" where
  "fsm_sendFailure t text = emit (FsmSendFailure t text)"

definition fsm_sendSuccess :: "string \<Rightarrow> state \<Rightarrow> state" where
  "fsm_sendSuccess text = emit (FsmSendSuccess text)"

definition layoutHome :: "state \<Rightarrow> state" where
  "layoutHome = emit LayoutHome"

definition layoutDialogSwipe ::
  "icon \<Rightarrow> string option \<Rightarrow> string option \<Rightarrow> string option \<Rightarrow> string option list \<Rightarrow> state \<Rightarrow> state" where
  "layoutDialogSwipe ic btnNo btnYes desc lines = emit (LayoutDialogSwipe ic btnNo btnYes desc lines)"

definition layoutResetWord :: "string \<Rightarrow> nat \<Rightarrow> nat \<Rightarrow> bool \<Rightarrow> state \<Rightarrow> state" where
  "layoutResetWord w pass word_pos is_last = emit (LayoutResetWord w pass word_pos is_last)"

definition msg_write_EntropyRequest :: "state \<Rightarrow> state" where
  "msg_write_EntropyRequest = emit MsgWriteEntropyRequest"

definition session_clear :: "bool \<Rightarrow> state \<Rightarrow> state" where
  "session_clear clear_pin = emit (SessionClear clear_pin)"

definition mnemonic_clear :: "state \<Rightarrow> state" where
  "mnemonic_clear = emit MnemonicClear"

text \<open>
  Modelled from the spec: the confirmation primitive blocks until the user accepts or
  declines; \<open>protectButton\<close> returns the environment's answer to this confirmation and
  counts it. \<open>protectChangePin\<close> returns whether the PIN setup succeeded; what it does to
  the PIN itself is outside this file and is not modelled.
\<close>

definition protectButton :: "env \<Rightarrow> ButtonRequestType \<Rightarrow> bool \<Rightarrow> state \<Rightarrow> bool \<times> state" where
  "protectButton e t confirm_only s =
     (button_answer e (presses s), emit (ProtectButton t confirm_only) (s\<lparr>presses := Suc (presses s)\<rparr>))"

definition protectChangePin :: "env \<Rightarrow> bool \<Rightarrow> state \<Rightarrow> bool \<times> state" where
  "protectChangePin e removal s = (pin_answer e, emit (ProtectChangePin removal) s)"

text \<open>
  Modelled from the spec: the configuration store has a getter and a setter for each flag
  and setting; a setter stores its argument and is recorded in the trace.
  \<open>config_setMnemonic\<close> returns whether the mnemonic was stored, and stores it then.
\<close>

definition config_setPassphraseProtection :: "bool \<Rightarrow> state \<Rightarrow> state" where
  "config_setPassphraseProtection b s =
     emit (ConfigSetPassphraseProtection b) (s\<lparr>cfg := (cfg s)\<lparr>cfg_passphrase_protection := b\<rparr>\<rparr>)"

definition config_setLanguage :: "string option \<Rightarrow> state \<Rightarrow> state" where
  "config_setLanguage l s = emit (ConfigSetLanguage l) (s\<lparr>cfg := (cfg s)\<lparr>cfg_language := l\<rparr>\<rparr>)"

definition config_setLabel :: "string option \<Rightarrow> state \<Rightarrow> state" where
  "config_setLabel l s = emit (ConfigSetLabel l) (s\<lparr>cfg := (cfg s)\<lparr>cfg_label := l\<rparr>\<rparr>)"

definition config_setU2FCounter :: "32 word \<Rightarrow> state \<Rightarrow> state" where
  "config_setU2FCounter c s = emit (ConfigSetU2FCounter c) (s\<lparr>cfg := (cfg s)\<lparr>cfg_u2f_counter := c\<rparr>\<rparr>)"

definition config_setNoBackup :: "state \<Rightarrow> state" where
  "config_setNoBackup s = emit ConfigSetNoBackup (s\<lparr>cfg := (cfg s)\<lparr>cfg_no_backup := True\<rparr>\<rparr>)"

definition config_setNeedsBackup :: "bool \<Rightarrow> state \<Rightarrow> state" where
  "config_setNeedsBackup b s = emit (ConfigSetNeedsBackup b) (s\<lparr>cfg := (cfg s)\<lparr>cfg_needs_backup := b\<rparr>\<rparr>)"

definition config_getNeedsBackup :: "state \<Rightarrow> bool" where
  "config_getNeedsBackup s = cfg_needs_backup (cfg s)"

definition config_setUnfinishedBackup :: "bool \<Rightarrow> state \<Rightarrow> state" where
  "config_setUnfinishedBackup b s =
     emit (ConfigSetUnfinishedBackup b) (s\<lparr>cfg := (cfg s)\<lparr>cfg_unfinished_backup := b\<rparr>\<rparr>)"

definition config_setMnemonic :: "env \<Rightarrow> string \<Rightarrow> state \<Rightarrow> bool \<times> state" where
  "config_setMnemonic e m s =
     (if storage_ok e m
      then (True, emit (ConfigSetMnemonic m) (s\<lparr>cfg := (cfg s)\<lparr>cfg_mnemonic := Some m\<rparr>\<rparr>))
      else (False, emit (ConfigSetMnemonic m) s))"

text \<open>
  Modelled from the spec: the random source fills a buffer, the digest primitive maps
  bytes to 32 bytes, the mnemonic derivation maps 16, 24 or 32 bytes to a word sequence.
  \<open>random_buffer buf len\<close> and \<open>memzero buf len\<close> overwrite the first \<open>len\<close> bytes of a
  buffer; \<open>data2hex\<close> reads \<open>len\<close> bytes from an offset. The SHA-256 context is the list
  of bytes fed so far, and \<open>sha256_Final\<close> writes the 32 bytes of their digest over the
  start of a buffer. \<open>mnemonic_from_data data len\<close> reads the first \<open>len\<close> bytes.
\<close>

definition random_buffer :: "env \<Rightarrow> byte list \<Rightarrow> nat \<Rightarrow> byte list" where
  "random_buffer e buf len = map (random_bytes e) [0..<len] @ drop len buf"

definition memzero :: "byte list \<Rightarrow> nat \<Rightarrow> byte list" where
  "memzero buf len = replicate len 0 @ drop len buf"

definition data2hex :: "env \<Rightarrow> byte list \<Rightarrow> nat \<Rightarrow> nat \<Rightarrow> string" where
  "data2hex e buf off len = hex e (take len (drop off buf))"

type_synonym SHA256_CTX = "byte list"

definition sha256_Init :: SHA256_CTX where
  "sha256_Init = []"

definition sha256_Update :: "SHA256_CTX \<Rightarrow> byte list \<Rightarrow> nat \<Rightarrow> SHA256_CTX" where
  "sha256_Update ctx data len = ctx @ take len data"

definition sha256_Final :: "env \<Rightarrow> SHA256_CTX \<Rightarrow> byte list \<Rightarrow> byte list" where
  "sha256_Final e ctx buf = take 32 (digest e ctx) @ drop 32 buf"

definition mnemonic_from_data :: "env \<Rightarrow> byte list \<Rightarrow> nat \<Rightarrow> string" where
  "mnemonic_from_data e data len = wordlist e (take len data)"

text \<open>
  C strings. A \<open>const char *\<close> is the list of its characters, the terminating NUL left
  out: reading at the index of the length gives NUL. A \<open>char\<close> array read as a string
  ends before its first NUL.
\<close>

definition c_at :: "string \<Rightarrow> nat \<Rightarrow> char" where
  "c_at m i = (if i < length m then m ! i else CHR 0x00)"

definition c_str :: "char list \<Rightarrow> string" where
  "c_str buf = takeWhile (\<lambda>c. c \<noteq> CHR 0x00) buf"

subsection \<open>reset\_init\<close>

text \<open>
  Lines 40 to 92. A pair \<open>(False, s)\<close> of a block stands for its \<open>return\<close>: the
  function ends with \<open>s\<close>.
\<close>

definition reset_init ::
  "env \<Rightarrow> bool \<Rightarrow> 32 word \<Rightarrow> bool \<Rightarrow> bool \<Rightarrow> string option \<Rightarrow> string option \<Rightarrow> 32 word
    \<Rightarrow> bool \<Rightarrow> bool \<Rightarrow> state \<Rightarrow> state" where
  "reset_init e display_random strength' passphrase_protection pin_protection language label
      u2f_counter skip_backup' no_backup' s =
    (if strength' \<noteq> 128 \<and> strength' \<noteq> 192 \<and> strength' \<noteq> 256 then s
     else
       let s = s\<lparr>strength := strength', skip_backup := skip_backup', no_backup := no_backup'\<rparr> in
       if display_random \<and> (skip_backup s \<or> no_backup s) then
         layoutHome (fsm_sendFailure Failure_ProcessError
           (Some ''Can't show internal entropy when backup is skipped'') s)
       else
         let s = layoutDialogSwipe bmp_icon_question (Some ''Cancel'') (Some ''Confirm'') None
                   [Some ''Do you really want to'', Some ''create a new wallet?'', None,
                    Some ''By continuing you'', Some ''agree to trezor.io/tos'', None] s;
             (ok, s) = protectButton e ButtonRequest_ProtectCall False s
         in
         if \<not> ok then layoutHome (fsm_sendFailure Failure_ActionCancelled None s)
         else
           let s = s\<lparr>int_entropy := random_buffer e (int_entropy s) 32\<rparr>;
               ent_str = [data2hex e (int_entropy s) 0 8, data2hex e (int_entropy s) 8 8,
                          data2hex e (int_entropy s) 16 8, data2hex e (int_entropy s) 24 8];
               (go, s) =
                 (if display_random then
                    let s = layoutDialogSwipe bmp_icon_info (Some ''Cancel'') (Some ''Continue'') None
                              [Some ''Internal entropy:'', Some (ent_str ! 0), Some (ent_str ! 1),
                               Some (ent_str ! 2), Some (ent_str ! 3), None] s;
                        (ok, s) = protectButton e ButtonRequest_ResetDevice False s
                    in
                    if \<not> ok then (False, layoutHome (fsm_sendFailure Failure_ActionCancelled None s))
                    else (True, s)
                  else (True, s))
           in
           if \<not> go then s
           else
             let (go, s) =
                   (if pin_protection then
                      let (ok, s) = protectChangePin e False s in
                      if \<not> ok then (False, layoutHome s) else (True, s)
                    else (True, s))
             in
             if \<not> go then s
             else
               let s = config_setPassphraseProtection passphrase_protection s;
                   s = config_setLanguage language s;
                   s = config_setLabel label s;
                   s = config_setU2FCounter u2f_counter s;
                   s = msg_write_EntropyRequest s
               in s\<lparr>awaiting_entropy := True\<rparr>)"

subsection \<open>reset\_backup\<close>

text \<open>
  Lines 150 to 153, the inner loop: copies characters of \<open>mnemonic\<close> from index \<open>i\<close>
  into \<open>current_word\<close> from index \<open>j\<close> while the character is neither a space nor NUL
  and \<open>j + 1 < sizeof(current_word)\<close>, which is 10. It returns the two indices and the state.
  The C \<open>int\<close>s \<open>i\<close>, \<open>j\<close>, \<open>pass\<close> and \<open>word_pos\<close> are naturals: none goes below
  zero, and \<open>i\<close> and \<open>word_pos\<close> stay at or below the length of the mnemonic plus one.
\<close>

function copy_word_loop :: "string \<Rightarrow> nat \<Rightarrow> nat \<Rightarrow> state \<Rightarrow> nat \<times> nat \<times> state" where
  "copy_word_loop mnemonic i j s =
     (if c_at mnemonic i \<noteq> CHR '' '' \<and> c_at mnemonic i \<noteq> CHR 0x00 \<and> j + 1 < 10
      then copy_word_loop mnemonic (i + 1) (j + 1)
             (s\<lparr>current_word := (current_word s)[j := c_at mnemonic i]\<rparr>)
      else (i, j, s))"
  by pat_completeness auto
termination
  by (relation "measure (\<lambda>(mnemonic, i, j, s). 10 - j)") auto

declare copy_word_loop.simps [simp del]

text \<open>
  Lines 148 to 157, the block under the comment \<open>copy current_word\<close>: the inner loop
  from \<open>j = 0\<close>, the terminator written at \<open>current_word[j]\<close>, and one step past the
  character at \<open>i\<close> unless it is the NUL that ends the mnemonic. It returns the new \<open>i\<close>.
\<close>

definition copy_current_word :: "string \<Rightarrow> nat \<Rightarrow> state \<Rightarrow> nat \<times> state" where
  "copy_current_word mnemonic i s =
     (let (i, j, s) = copy_word_loop mnemonic i 0 s;
          s = s\<lparr>current_word := (current_word s)[j := CHR 0x00]\<rparr>;
          i = (if c_at mnemonic i \<noteq> CHR 0x00 then i + 1 else i)
      in (i, s))"

lemma copy_word_loop_index:
  "copy_word_loop mnemonic i j s = (i', j', s') \<Longrightarrow>
     i \<le> i' \<and> i' \<le> max i (length mnemonic) \<and>
     (c_at mnemonic i \<noteq> CHR '' '' \<and> c_at mnemonic i \<noteq> CHR 0x00 \<and> j + 1 < 10 \<longrightarrow> i < i')"
proof (induction mnemonic i j s arbitrary: i' j' s' rule: copy_word_loop.induct)
  case (1 mnemonic i j s)
  show ?case
  proof (cases "c_at mnemonic i \<noteq> CHR '' '' \<and> c_at mnemonic i \<noteq> CHR 0x00 \<and> j + 1 < 10")
    case True
    then have lt: "i < length mnemonic"
      by (auto simp: c_at_def split: if_splits)
    from True "1.prems"
    have "copy_word_loop mnemonic (i + 1) (j + 1)
            (s\<lparr>current_word := (current_word s)[j := c_at mnemonic i]\<rparr>) = (i', j', s')"
      by (subst (asm) copy_word_loop.simps) simp
    from "1.IH"[OF True this] lt True show ?thesis
      by auto
  next
    case False
    with "1.prems" have "i' = i"
      by (subst (asm) copy_word_loop.simps) auto
    with False show ?thesis
      by auto
  qed
qed

lemma copy_current_word_index:
  assumes "copy_current_word mnemonic i s = (i', s')" and "c_at mnemonic i \<noteq> CHR 0x00"
  shows "i < i' \<and> i' \<le> length mnemonic"
proof -
  obtain i1 j1 s1 where loop: "copy_word_loop mnemonic i 0 s = (i1, j1, s1)"
    by (cases "copy_word_loop mnemonic i 0 s") auto
  from assms(2) have lt: "i < length mnemonic"
    by (auto simp: c_at_def split: if_splits)
  from copy_word_loop_index[OF loop] lt
  have b: "i \<le> i1" "i1 \<le> length mnemonic"
    and adv: "c_at mnemonic i \<noteq> CHR '' '' \<Longrightarrow> i < i1"
    by (auto simp: assms(2))
  from assms(1) loop
  have i': "i' = (if c_at mnemonic i1 \<noteq> CHR 0x00 then i1 + 1 else i1)"
    by (auto simp: copy_current_word_def Let_def)
  show ?thesis
  proof (cases "c_at mnemonic i1 \<noteq> CHR 0x00")
    case True
    then have "i1 < length mnemonic"
      by (auto simp: c_at_def split: if_splits)
    with True i' b show ?thesis by auto
  next
    case False
    then have "i1 \<noteq> i" using assms(2) by auto
    with False i' b show ?thesis by auto
  qed
qed

text \<open>
  Lines 147 to 168, the loop over the words of one pass, from index \<open>i\<close> and position
  \<open>word_pos\<close>. The result \<open>(False, s)\<close> stands for the \<open>return\<close> of line 165 (the user
  declined a word), \<open>(True, s)\<close> for the end of the loop.
\<close>

function backup_words :: "env \<Rightarrow> bool \<Rightarrow> string \<Rightarrow> nat \<Rightarrow> nat \<Rightarrow> nat \<Rightarrow> state \<Rightarrow> bool \<times> state" where
  "backup_words e separated mnemonic pass i word_pos s =
     (if c_at mnemonic i \<noteq> CHR 0x00 then
        (case copy_current_word mnemonic i s of
           (i', s) \<Rightarrow>
             let s = layoutResetWord (c_str (current_word s)) pass word_pos
                       (c_at mnemonic i' = CHR 0x00) s
             in
             (case protectButton e ButtonRequest_ConfirmWord True s of
                (ok, s) \<Rightarrow>
                  if \<not> ok then
                    let s = (if \<not> separated then session_clear True s else s);
                        s = layoutHome s
                    in (False, fsm_sendFailure Failure_ActionCancelled None s)
                  else backup_words e separated mnemonic pass i' (word_pos + 1) s))
      else (True, s))"
  by pat_completeness auto
termination
proof (relation "measure (\<lambda>(e, separated, mnemonic, pass, i, word_pos, s). length mnemonic - i)",
    goal_cases)
  case 1
  show ?case by simp
next
  case 2
  then show ?case
    using copy_current_word_index[OF sym] by fastforce
qed

declare backup_words.simps [simp del]

text \<open>Lines 145 to 169, the loop over the passes, from \<open>pass\<close> up to 2.\<close>

function backup_passes :: "env \<Rightarrow> bool \<Rightarrow> string \<Rightarrow> nat \<Rightarrow> state \<Rightarrow> bool \<times> state" where
  "backup_passes e separated mnemonic pass s =
     (if pass < 2 then
        (case backup_words e separated mnemonic pass 0 1 s of
           (done, s) \<Rightarrow>
             if \<not> done then (False, s)
             else backup_passes e separated mnemonic (pass + 1) s)
      else (True, s))"
  by pat_completeness auto
termination
  by (relation "measure (\<lambda>(e, separated, mnemonic, pass, s). 2 - pass)") auto

declare backup_passes.simps [simp del]

text \<open>Lines 131 to 184.\<close>

definition reset_backup :: "env \<Rightarrow> bool \<Rightarrow> string \<Rightarrow> state \<Rightarrow> state" where
  "reset_backup e separated mnemonic s =
     (if separated \<and> \<not> config_getNeedsBackup s then
        fsm_sendFailure Failure_UnexpectedMessage (Some ''Seed already backed up'') s
      else
        let s = (if separated
                 then config_setNeedsBackup False (config_setUnfinishedBackup True s)
                 else s)
        in
        (case backup_passes e separated mnemonic 0 s of
           (done, s) \<Rightarrow>
             if \<not> done then s
             else
               let s = config_setUnfinishedBackup False s;
                   s = (if separated then fsm_sendSuccess ''Seed successfully backed up'' s
                        else
                          let s = config_setNeedsBackup False s;
                              (ok, s) = config_setMnemonic e mnemonic s
                          in
                          if ok then fsm_sendSuccess ''Device successfully initialized'' s
                          else fsm_sendFailure Failure_ProcessError
                                 (Some ''Failed to store mnemonic'') s)
               in layoutHome s))"

subsection \<open>reset\_entropy\<close>

text \<open>
  Lines 110 to 124: what \<open>reset_entropy\<close> does with the mnemonic it has derived,
  by \<open>skip_backup\<close> and \<open>no_backup\<close>.
\<close>

definition reset_entropy_dispatch :: "env \<Rightarrow> string \<Rightarrow> state \<Rightarrow> state" where
  "reset_entropy_dispatch e mnemonic s =
     (if skip_backup s \<or> no_backup s then
        let s = (if no_backup s then config_setNoBackup s else config_setNeedsBackup True s);
            (ok, s) = config_setMnemonic e mnemonic s;
            s = (if ok then fsm_sendSuccess ''Device successfully initialized'' s
                 else fsm_sendFailure Failure_ProcessError (Some ''Failed to store mnemonic'') s)
        in layoutHome s
      else reset_backup e False mnemonic s)"

text \<open>
  Lines 102 to 108: the digest of \<open>int_entropy\<close> followed by \<open>ext_entropy\<close> is written
  over \<open>int_entropy\<close>, the mnemonic is derived from its first \<open>strength / 8\<close> bytes, and
  \<open>int_entropy\<close> is zeroed. \<open>len\<close> is the length of \<open>ext_entropy\<close>.
\<close>

definition reset_entropy_mix :: "env \<Rightarrow> byte list \<Rightarrow> state \<Rightarrow> string \<times> state" where
  "reset_entropy_mix e ext_entropy s =
     (let ctx = sha256_Init;
          ctx = sha256_Update ctx (int_entropy s) 32;
          ctx = sha256_Update ctx ext_entropy (length ext_entropy);
          s = s\<lparr>int_entropy := sha256_Final e ctx (int_entropy s)\<rparr>;
          mnemonic = mnemonic_from_data e (int_entropy s) (unat (strength s div 8));
          s = s\<lparr>int_entropy := memzero (int_entropy s) 32\<rparr>
      in (mnemonic, s))"

text \<open>Lines 94 to 126.\<close>

definition reset_entropy :: "env \<Rightarrow> byte list \<Rightarrow> state \<Rightarrow> state" where
  "reset_entropy e ext_entropy s =
     (if \<not> awaiting_entropy s then
        fsm_sendFailure Failure_UnexpectedMessage (Some ''Not in Reset mode'') s
      else
        let s = s\<lparr>awaiting_entropy := False\<rparr>;
            (mnemonic, s) = reset_entropy_mix e ext_entropy s;
            s = reset_entropy_dispatch e mnemonic s
        in mnemonic_clear s)"

section \<open>Definitions for the statements\<close>

subsection \<open>Concrete inputs\<close>

text \<open>
  A device before any reset: the statics as the C runtime zero-initialises them, an empty
  configuration store, no confirmation asked yet and an empty trace.
\<close>

definition cfg0 :: config where
  "cfg0 = \<lparr>cfg_passphrase_protection = False, cfg_language = None, cfg_label = None,
     cfg_u2f_counter = 0, cfg_no_backup = False, cfg_needs_backup = False,
     cfg_unfinished_backup = False, cfg_mnemonic = None\<rparr>"

definition s0 :: state where
  "s0 = \<lparr>strength = 0, int_entropy = replicate 32 0,
     awaiting_entropy = False, skip_backup = False, no_backup = False,
     current_word = [CHR 0x00, CHR 0x00, CHR 0x00, CHR 0x00, CHR 0x00,
                     CHR 0x00, CHR 0x00, CHR 0x00, CHR 0x00, CHR 0x00],
     cfg = cfg0, presses = 0, trace = []\<rparr>"

text \<open>
  \<open>env_yes\<close>: a user who confirms everything, a PIN setup that succeeds, a store that
  accepts every mnemonic, and stand-ins for the random bytes, the digest, the word list
  and the hex rendering. The others differ from it in one answer: \<open>env_no\<close> declines
  every confirmation, \<open>env_decline_entropy\<close> confirms the first and declines the second,
  \<open>env_pin_fails\<close> fails the PIN setup, \<open>env_store_fails\<close> refuses to store.
\<close>

definition env_yes :: env where
  "env_yes = \<lparr>random_bytes = (\<lambda>i. 0xAB), button_answer = (\<lambda>k. True), pin_answer = True,
     digest = (\<lambda>xs. replicate 32 (of_nat (length xs))),
     wordlist = (\<lambda>bs. if length bs = 16 then ''ab cd'' else ''ef gh ij''),
     hex = (\<lambda>bs. ''00''), storage_ok = (\<lambda>m. True)\<rparr>"

definition env_no :: env where
  "env_no = env_yes\<lparr>button_answer := (\<lambda>k. False)\<rparr>"

definition env_decline_entropy :: env where
  "env_decline_entropy = env_yes\<lparr>button_answer := (\<lambda>k. k < 1)\<rparr>"

definition env_pin_fails :: env where
  "env_pin_fails = env_yes\<lparr>pin_answer := False\<rparr>"

definition env_store_fails :: env where
  "env_store_fails = env_yes\<lparr>storage_ok := (\<lambda>m. False)\<rparr>"

text \<open>
  \<open>s_owed\<close>: a device whose store says a backup is owed. \<open>s_await\<close>: a device that
  has asked the host for entropy, with strength 128.
\<close>

definition s_owed :: state where
  "s_owed = s0\<lparr>cfg := cfg0\<lparr>cfg_needs_backup := True\<rparr>\<rparr>"

definition s_await :: state where
  "s_await = s0\<lparr>strength := 128, awaiting_entropy := True\<rparr>"

text \<open>
  \<open>s_pending\<close>: the device after a reset request with strength 128 and an inline
  backup has passed every gate; it awaits the entropy of the host.
\<close>

definition s_pending :: state where
  "s_pending = reset_init env_yes False 128 False False None None 0 False False s0"

subsection \<open>What a run of the word loop looks like\<close>

text \<open>
  \<open>same_session\<close>: the statics other than the content of \<open>current_word\<close>, and the
  configuration store, are equal in two states. \<open>word_call\<close>: the call displays a word
  or asks to confirm one. \<open>confirm_word\<close>: the two calls of one confirmed word, lines 158
  and 159. \<open>cancel_calls\<close>: the calls of lines 160 to 164, made when the user declines a
  word.
\<close>

definition same_session :: "state \<Rightarrow> state \<Rightarrow> bool" where
  "same_session s s' =
     (strength s' = strength s \<and> int_entropy s' = int_entropy s \<and>
      awaiting_entropy s' = awaiting_entropy s \<and> skip_backup s' = skip_backup s \<and>
      no_backup s' = no_backup s \<and> cfg s' = cfg s \<and>
      length (current_word s') = length (current_word s))"

fun word_call :: "call \<Rightarrow> bool" where
  "word_call (LayoutResetWord w pass word_pos is_last) = True"
| "word_call (ProtectButton t confirm_only) = (t = ButtonRequest_ConfirmWord \<and> confirm_only)"
| "word_call c = False"

definition confirm_word :: "string \<Rightarrow> nat \<Rightarrow> nat \<Rightarrow> bool \<Rightarrow> state \<Rightarrow> state" where
  "confirm_word w pass word_pos is_last s =
     s\<lparr>presses := Suc (presses s),
       trace := trace s @ [LayoutResetWord w pass word_pos is_last,
                           ProtectButton ButtonRequest_ConfirmWord True]\<rparr>"

definition cancel_calls :: "bool \<Rightarrow> call list" where
  "cancel_calls separated =
     (if separated then [] else [SessionClear True]) @
     [LayoutHome, FsmSendFailure Failure_ActionCancelled None]"

text \<open>
  \<open>backup_intent\<close>: the state after lines 141 and 142 of a separated backup.
  \<open>completion_calls\<close> and \<open>completion_cfg\<close>: the calls of lines 171 to 183, made when
  both passes are complete, and their effect on the configuration store.
\<close>

definition backup_intent :: "bool \<Rightarrow> state \<Rightarrow> state" where
  "backup_intent separated s =
     (if separated
      then s\<lparr>cfg := (cfg s)\<lparr>cfg_needs_backup := False, cfg_unfinished_backup := True\<rparr>,
             trace := trace s @ [ConfigSetUnfinishedBackup True, ConfigSetNeedsBackup False]\<rparr>
      else s)"

definition completion_calls :: "env \<Rightarrow> bool \<Rightarrow> string \<Rightarrow> call list" where
  "completion_calls e separated mnemonic =
     ConfigSetUnfinishedBackup False #
     (if separated then [FsmSendSuccess ''Seed successfully backed up'']
      else [ConfigSetNeedsBackup False, ConfigSetMnemonic mnemonic,
            if storage_ok e mnemonic then FsmSendSuccess ''Device successfully initialized''
            else FsmSendFailure Failure_ProcessError (Some ''Failed to store mnemonic'')]) @
     [LayoutHome]"

definition completion_cfg :: "env \<Rightarrow> bool \<Rightarrow> string \<Rightarrow> config \<Rightarrow> config" where
  "completion_cfg e separated mnemonic c =
     (if separated then c\<lparr>cfg_unfinished_backup := False\<rparr>
      else if storage_ok e mnemonic
        then c\<lparr>cfg_needs_backup := False, cfg_unfinished_backup := False,
               cfg_mnemonic := Some mnemonic\<rparr>
        else c\<lparr>cfg_needs_backup := False, cfg_unfinished_backup := False\<rparr>)"

subsection \<open>What a run of reset\_init looks like\<close>

text \<open>
  The two dialogs of \<open>reset_init\<close>, lines 54 and 70. \<open>reset_init_outcome\<close> lists the six
  ways \<open>reset_init\<close> can end, each with its final state written out; it is proved equal to
  \<open>reset_init\<close> below and is used in proofs only.
\<close>

definition create_wallet_dialog :: call where
  "create_wallet_dialog =
     LayoutDialogSwipe bmp_icon_question (Some ''Cancel'') (Some ''Confirm'') None
       [Some ''Do you really want to'', Some ''create a new wallet?'', None,
        Some ''By continuing you'', Some ''agree to trezor.io/tos'', None]"

definition entropy_dialog :: "env \<Rightarrow> byte list \<Rightarrow> call" where
  "entropy_dialog e buf =
     LayoutDialogSwipe bmp_icon_info (Some ''Cancel'') (Some ''Continue'') None
       [Some ''Internal entropy:'', Some (data2hex e buf 0 8), Some (data2hex e buf 8 8),
        Some (data2hex e buf 16 8), Some (data2hex e buf 24 8), None]"

definition reset_init_outcome ::
  "env \<Rightarrow> bool \<Rightarrow> 32 word \<Rightarrow> bool \<Rightarrow> bool \<Rightarrow> string option \<Rightarrow> string option \<Rightarrow> 32 word
    \<Rightarrow> bool \<Rightarrow> bool \<Rightarrow> state \<Rightarrow> state" where
  "reset_init_outcome e dr st pp pin lang lab u2f skip nb s =
    (let s1 = s\<lparr>strength := st, skip_backup := skip, no_backup := nb\<rparr>;
         buf = random_buffer e (int_entropy s) 32;
         ask1 = [create_wallet_dialog, ProtectButton ButtonRequest_ProtectCall False];
         ask2 = (if dr then [entropy_dialog e buf, ProtectButton ButtonRequest_ResetDevice False]
                 else []);
         ask3 = (if pin then [ProtectChangePin False] else []);
         n2 = (if dr then Suc (Suc (presses s)) else Suc (presses s))
     in
     if st \<noteq> 128 \<and> st \<noteq> 192 \<and> st \<noteq> 256 then s
     else if dr \<and> (skip \<or> nb) then
       s1\<lparr>trace := trace s @
         [FsmSendFailure Failure_ProcessError
            (Some ''Can't show internal entropy when backup is skipped''), LayoutHome]\<rparr>
     else if \<not> button_answer e (presses s) then
       s1\<lparr>presses := Suc (presses s),
          trace := trace s @ ask1 @ [FsmSendFailure Failure_ActionCancelled None, LayoutHome]\<rparr>
     else if dr \<and> \<not> button_answer e (Suc (presses s)) then
       s1\<lparr>int_entropy := buf, presses := n2,
          trace := trace s @ ask1 @ ask2 @ [FsmSendFailure Failure_ActionCancelled None, LayoutHome]\<rparr>
     else if pin \<and> \<not> pin_answer e then
       s1\<lparr>int_entropy := buf, presses := n2,
          trace := trace s @ ask1 @ ask2 @ ask3 @ [LayoutHome]\<rparr>
     else
       s1\<lparr>int_entropy := buf, awaiting_entropy := True,
          cfg := (cfg s)\<lparr>cfg_passphrase_protection := pp, cfg_language := lang,
                        cfg_label := lab, cfg_u2f_counter := u2f\<rparr>,
          presses := n2,
          trace := trace s @ ask1 @ ask2 @ ask3 @
            [ConfigSetPassphraseProtection pp, ConfigSetLanguage lang, ConfigSetLabel lab,
             ConfigSetU2FCounter u2f, MsgWriteEntropyRequest]\<rparr>)"

text \<open>
  \<open>gates_passed\<close>: the user confirms the create-wallet dialog, confirms the entropy
  display when there is one, and the PIN setup succeeds when there is one.
  \<open>setting_call\<close>: the call writes one of the four settings of a reset request.
  \<open>dialog_call\<close>: the call draws a dialog.
\<close>

definition gates_passed :: "env \<Rightarrow> bool \<Rightarrow> bool \<Rightarrow> state \<Rightarrow> bool" where
  "gates_passed e display_random pin_protection s =
     (button_answer e (presses s) \<and>
      (display_random \<longrightarrow> button_answer e (Suc (presses s))) \<and>
      (pin_protection \<longrightarrow> pin_answer e))"

fun setting_call :: "call \<Rightarrow> bool" where
  "setting_call (ConfigSetPassphraseProtection b) = True"
| "setting_call (ConfigSetLanguage l) = True"
| "setting_call (ConfigSetLabel l) = True"
| "setting_call (ConfigSetU2FCounter c) = True"
| "setting_call c = False"

fun dialog_call :: "call \<Rightarrow> bool" where
  "dialog_call (LayoutDialogSwipe ic btnNo btnYes desc lines) = True"
| "dialog_call c = False"

subsection \<open>The words of a mnemonic\<close>

text \<open>
  From the specification, not from the code: \<open>tokens\<close> splits a string at every single
  space, so that \<open>n\<close> spaces give \<open>n + 1\<close> tokens; \<open>word_calls ws pass word_pos\<close> is
  one traversal of the words \<open>ws\<close>: each word is displayed with the pass, its position
  counted from \<open>word_pos\<close>, and the last-word flag set on the last word only, and is then
  confirmed.
\<close>

fun tokens :: "string \<Rightarrow> string list" where
  "tokens [] = [[]]"
| "tokens (c # cs) =
     (if c = CHR '' '' then [] # tokens cs
      else (c # hd (tokens cs)) # tl (tokens cs))"

fun word_calls :: "string list \<Rightarrow> nat \<Rightarrow> nat \<Rightarrow> call list" where
  "word_calls [] pass word_pos = []"
| "word_calls (w # ws) pass word_pos =
     LayoutResetWord w pass word_pos (ws = []) #
     ProtectButton ButtonRequest_ConfirmWord True #
     word_calls ws pass (word_pos + 1)"

text \<open>
  For the proofs only: \<open>split_words\<close> reads words the way the loop of \<open>reset_backup\<close>
  does, a word ending at a space or at the end of the string. The lemma
  \<open>split_words_tokens\<close> below relates it to \<open>tokens\<close>.
\<close>

fun split_words :: "string \<Rightarrow> string list" where
  "split_words [] = []"
| "split_words (c # cs) =
     (if c = CHR '' '' then [] # split_words cs
      else (case split_words cs of [] \<Rightarrow> [[c]] | w # ws \<Rightarrow> (c # w) # ws))"

subsection \<open>The word left in the buffer, and well-formed states\<close>

text \<open>
  \<open>last_shown\<close>: the word of the last \<open>layoutResetWord\<close> call of a list of calls.
  \<open>holds_last_shown s s'\<close>: read as a C string, \<open>current_word\<close> in \<open>s'\<close> is the last
  word displayed since \<open>s\<close>; when none was displayed, the buffer is as it was in \<open>s\<close>.
  \<open>well_formed\<close>: the buffers have their declared sizes, and while entropy is awaited the
  strength is one of the three that \<open>reset_init\<close> accepts.
\<close>

fun last_shown :: "call list \<Rightarrow> string option" where
  "last_shown [] = None"
| "last_shown (c # cs) =
     (case last_shown cs of
        Some w \<Rightarrow> Some w
      | None \<Rightarrow> (case c of LayoutResetWord w pass word_pos is_last \<Rightarrow> Some w | _ \<Rightarrow> None))"

definition holds_last_shown :: "state \<Rightarrow> state \<Rightarrow> bool" where
  "holds_last_shown s s' =
     (case last_shown (drop (length (trace s)) (trace s')) of
        None \<Rightarrow> current_word s' = current_word s
      | Some w \<Rightarrow> c_str (current_word s') = w)"

definition well_formed :: "state \<Rightarrow> bool" where
  "well_formed s =
     (length (int_entropy s) = 32 \<and> length (current_word s) = 10 \<and>
      (awaiting_entropy s \<longrightarrow> strength s = 128 \<or> strength s = 192 \<or> strength s = 256))"

section \<open>Lemmas\<close>

subsection \<open>Unfolding the loops\<close>

lemmas call_defs =
  emit_def fsm_sendFailure_def fsm_sendSuccess_def layoutHome_def layoutDialogSwipe_def
  layoutResetWord_def msg_write_EntropyRequest_def session_clear_def mnemonic_clear_def
  protectButton_def protectChangePin_def config_setPassphraseProtection_def
  config_setLanguage_def config_setLabel_def config_setU2FCounter_def config_setNoBackup_def
  config_setNeedsBackup_def config_getNeedsBackup_def config_setUnfinishedBackup_def
  config_setMnemonic_def

lemma backup_passes_unfold:
  "backup_passes e separated mnemonic 0 s =
     (case backup_words e separated mnemonic 0 0 1 s of
        (done, s) \<Rightarrow>
          if \<not> done then (False, s)
          else (case backup_words e separated mnemonic 1 0 1 s of
                  (done, s) \<Rightarrow> if \<not> done then (False, s) else (True, s)))"
  by (simp add: backup_passes.simps [of _ _ _ 0] backup_passes.simps [of _ _ _ "Suc 0"]
      backup_passes.simps [of _ _ _ "Suc (Suc 0)"] split: prod.splits)

lemma backup_words_end:
  "c_at mnemonic i = CHR 0x00 \<Longrightarrow> backup_words e separated mnemonic pass i word_pos s = (True, s)"
  by (subst backup_words.simps) simp

lemma backup_words_step:
  assumes "c_at mnemonic i \<noteq> CHR 0x00" and "copy_current_word mnemonic i s = (i1, s1)"
  shows "backup_words e separated mnemonic pass i word_pos s =
     (let s2 = confirm_word (c_str (current_word s1)) pass word_pos (c_at mnemonic i1 = CHR 0x00) s1
      in if button_answer e (presses s1)
         then backup_words e separated mnemonic pass i1 (word_pos + 1) s2
         else (False, s2\<lparr>trace := trace s2 @ cancel_calls separated\<rparr>))"
  using assms
  by (subst backup_words.simps) (simp add: call_defs confirm_word_def cancel_calls_def Let_def)

lemma backup_passes_empty: "backup_passes e separated [] 0 s = (True, s)"
  by (simp add: backup_passes_unfold backup_words_end c_at_def)

subsection \<open>What the word loop leaves alone\<close>

lemma same_session_refl: "same_session s s"
  by (simp add: same_session_def)

lemma same_session_trans: "same_session s s1 \<Longrightarrow> same_session s1 s2 \<Longrightarrow> same_session s s2"
  by (simp add: same_session_def)

lemma copy_word_loop_same:
  "copy_word_loop mnemonic i j s = (i', j', s') \<Longrightarrow>
     same_session s s' \<and> presses s' = presses s \<and> trace s' = trace s"
proof (induction mnemonic i j s arbitrary: i' j' s' rule: copy_word_loop.induct)
  case (1 mnemonic i j s)
  show ?case
  proof (cases "c_at mnemonic i \<noteq> CHR '' '' \<and> c_at mnemonic i \<noteq> CHR 0x00 \<and> j + 1 < 10")
    case True
    with "1.prems"
    have "copy_word_loop mnemonic (i + 1) (j + 1)
            (s\<lparr>current_word := (current_word s)[j := c_at mnemonic i]\<rparr>) = (i', j', s')"
      by (subst (asm) copy_word_loop.simps) simp
    from "1.IH"[OF True this] show ?thesis
      by (simp add: same_session_def)
  next
    case False
    with "1.prems" have "s' = s"
      by (subst (asm) copy_word_loop.simps) auto
    then show ?thesis
      by (simp add: same_session_def)
  qed
qed

lemma copy_current_word_same:
  assumes "copy_current_word mnemonic i s = (i', s')"
  shows "same_session s s' \<and> presses s' = presses s \<and> trace s' = trace s"
proof -
  obtain i1 j1 s1 where loop: "copy_word_loop mnemonic i 0 s = (i1, j1, s1)"
    by (cases "copy_word_loop mnemonic i 0 s") auto
  from assms loop have s': "s' = s1\<lparr>current_word := (current_word s1)[j1 := CHR 0x00]\<rparr>"
    by (auto simp: copy_current_word_def Let_def)
  from copy_word_loop_same[OF loop] s' show ?thesis
    by (simp add: same_session_def)
qed

lemma backup_words_shape:
  "\<exists>t. list_all word_call t \<and>
       same_session s (snd (backup_words e separated mnemonic pass i word_pos s)) \<and>
       trace (snd (backup_words e separated mnemonic pass i word_pos s)) =
         trace s @ t @
         (if fst (backup_words e separated mnemonic pass i word_pos s) then []
          else cancel_calls separated)"
proof (induction "length mnemonic - i" arbitrary: i word_pos s rule: less_induct)
  case less
  show ?case
  proof (cases "c_at mnemonic i = CHR 0x00")
    case True
    have "list_all word_call []" by simp
    with True show ?thesis
      by (simp add: backup_words_end same_session_refl)
  next
    case False
    obtain i1 s1 where c: "copy_current_word mnemonic i s = (i1, s1)"
      by force
    define s2 where
      "s2 = confirm_word (c_str (current_word s1)) pass word_pos (c_at mnemonic i1 = CHR 0x00) s1"
    define t0 where
      "t0 = [LayoutResetWord (c_str (current_word s1)) pass word_pos (c_at mnemonic i1 = CHR 0x00),
             ProtectButton ButtonRequest_ConfirmWord True]"
    from copy_current_word_same[OF c]
    have same2: "same_session s s2" and tr2: "trace s2 = trace s @ t0"
      by (simp_all add: s2_def t0_def same_session_def confirm_word_def)
    have t0: "list_all word_call t0"
      by (simp add: t0_def)
    show ?thesis
    proof (cases "button_answer e (presses s1)")
      case True
      from copy_current_word_index[OF c False] have "length mnemonic - i1 < length mnemonic - i"
        by auto
      then have "\<exists>t. list_all word_call t \<and>
          same_session s2 (snd (backup_words e separated mnemonic pass i1 (word_pos + 1) s2)) \<and>
          trace (snd (backup_words e separated mnemonic pass i1 (word_pos + 1) s2)) =
            trace s2 @ t @
            (if fst (backup_words e separated mnemonic pass i1 (word_pos + 1) s2) then []
             else cancel_calls separated)"
        by (rule less)
      then obtain t where t: "list_all word_call t"
        and same: "same_session s2 (snd (backup_words e separated mnemonic pass i1 (word_pos + 1) s2))"
        and tr: "trace (snd (backup_words e separated mnemonic pass i1 (word_pos + 1) s2)) =
                 trace s2 @ t @
                 (if fst (backup_words e separated mnemonic pass i1 (word_pos + 1) s2) then []
                  else cancel_calls separated)"
        by blast
      have eq: "backup_words e separated mnemonic pass i word_pos s =
                backup_words e separated mnemonic pass i1 (word_pos + 1) s2"
        using backup_words_step[OF False c] True by (simp add: s2_def Let_def)
      have "list_all word_call (t0 @ t)"
        using t0 t by simp
      moreover have "same_session s (snd (backup_words e separated mnemonic pass i word_pos s))"
        using same_session_trans[OF same2 same] eq by simp
      moreover have "trace (snd (backup_words e separated mnemonic pass i word_pos s)) =
          trace s @ (t0 @ t) @
          (if fst (backup_words e separated mnemonic pass i word_pos s) then []
           else cancel_calls separated)"
        using tr tr2 eq by simp
      ultimately show ?thesis
        by blast
    next
      case no: False
      have eq: "backup_words e separated mnemonic pass i word_pos s =
                (False, s2\<lparr>trace := trace s2 @ cancel_calls separated\<rparr>)"
        using backup_words_step[OF False c] no by (simp add: s2_def Let_def)
      have "same_session s (snd (backup_words e separated mnemonic pass i word_pos s))"
        using same2 eq by (simp add: same_session_def)
      moreover have "trace (snd (backup_words e separated mnemonic pass i word_pos s)) =
          trace s @ t0 @
          (if fst (backup_words e separated mnemonic pass i word_pos s) then []
           else cancel_calls separated)"
        using tr2 eq by simp
      ultimately show ?thesis
        using t0 by blast
    qed
  qed
qed

lemma backup_words_same:
  "same_session s (snd (backup_words e separated mnemonic pass i word_pos s))"
  using backup_words_shape[of s e separated mnemonic pass i word_pos] by blast

lemma backup_passes_shape:
  "\<exists>t. list_all word_call t \<and>
       same_session s (snd (backup_passes e separated mnemonic 0 s)) \<and>
       trace (snd (backup_passes e separated mnemonic 0 s)) =
         trace s @ t @
         (if fst (backup_passes e separated mnemonic 0 s) then [] else cancel_calls separated)"
proof -
  obtain d1 s1 where r1: "backup_words e separated mnemonic 0 0 1 s = (d1, s1)"
    by force
  from backup_words_shape[of s e separated mnemonic 0 0 1] r1
  obtain t1 where t1: "list_all word_call t1" "same_session s s1"
    "trace s1 = trace s @ t1 @ (if d1 then [] else cancel_calls separated)"
    by auto
  show ?thesis
  proof (cases d1)
    case False
    with r1 have "backup_passes e separated mnemonic 0 s = (False, s1)"
      by (simp add: backup_passes_unfold)
    with t1 False show ?thesis
      by auto
  next
    case True
    obtain d2 s2 where r2: "backup_words e separated mnemonic 1 0 1 s1 = (d2, s2)"
      by force
    from backup_words_shape[of s1 e separated mnemonic 1 0 1] r2
    obtain t2 where t2: "list_all word_call t2" "same_session s1 s2"
      "trace s2 = trace s1 @ t2 @ (if d2 then [] else cancel_calls separated)"
      by auto
    from r1 r2 True have eq: "backup_passes e separated mnemonic 0 s = (d2, s2)"
      by (simp add: backup_passes_unfold)
    have "list_all word_call (t1 @ t2)"
      using t1 t2 by simp
    moreover have "same_session s s2"
      using same_session_trans t1 t2 by blast
    moreover have "trace s2 = trace s @ (t1 @ t2) @ (if d2 then [] else cancel_calls separated)"
      using t1 t2 True by simp
    ultimately show ?thesis
      using eq by (metis fst_conv snd_conv)
  qed
qed

subsection \<open>Words that fit the buffer\<close>

lemma c_at_drop:
  "drop i m = c # r \<Longrightarrow> c_at m i = c"
  by (metis c_at_def drop_eq_Nil hd_drop_conv_nth list.distinct(1) list.sel(1) not_less)

lemma c_at_end:
  "drop i m = [] \<Longrightarrow> c_at m i = CHR 0x00"
  by (simp add: c_at_def)

lemma c_at_inside:
  "i < length m \<Longrightarrow> CHR 0x00 \<notin> set m \<Longrightarrow> c_at m i \<noteq> CHR 0x00"
  by (metis c_at_def nth_mem)

lemma copy_word_loop_word:
  assumes "drop i m = w @ r" and "CHR '' '' \<notin> set w" and "CHR 0x00 \<notin> set w"
    and "r = [] \<or> hd r = CHR '' ''" and "j + length w < 10"
    and "j + length w \<le> length (current_word s)"
  shows "copy_word_loop m i j s =
     (i + length w, j + length w,
      s\<lparr>current_word := take j (current_word s) @ w @ drop (j + length w) (current_word s)\<rparr>)"
  using assms
proof (induction w arbitrary: i j s)
  case Nil
  then have "c_at m i = CHR '' '' \<or> c_at m i = CHR 0x00"
    by (cases r) (auto simp: c_at_drop c_at_end)
  then show ?case
    by (subst copy_word_loop.simps) auto
next
  case (Cons c w)
  from Cons.prems have c: "c_at m i = c" "c \<noteq> CHR '' ''" "c \<noteq> CHR 0x00" "j + 1 < 10"
    "j < length (current_word s)"
    by (auto simp: c_at_drop)
  from Cons.prems have d: "drop (i + 1) m = w @ r"
    by (metis Suc_eq_plus1 append_Cons drop_Suc list.sel(3) tl_drop)
  have "copy_word_loop m (i + 1) (j + 1) (s\<lparr>current_word := (current_word s)[j := c]\<rparr>) =
     (i + 1 + length w, j + 1 + length w,
      s\<lparr>current_word := (current_word s)[j := c]\<rparr>
       \<lparr>current_word := take (j + 1) (current_word (s\<lparr>current_word := (current_word s)[j := c]\<rparr>)) @ w @
          drop (j + 1 + length w) (current_word (s\<lparr>current_word := (current_word s)[j := c]\<rparr>))\<rparr>)"
    using Cons.prems d by (intro Cons.IH) auto
  moreover have "take (j + 1) ((current_word s)[j := c]) = take j (current_word s) @ [c]"
    using c(5) by (simp add: take_Suc_conv_app_nth)
  ultimately show ?case
    using c by (subst copy_word_loop.simps) simp
qed

lemma copy_current_word_word:
  assumes "drop i m = w @ r" and "CHR '' '' \<notin> set w" and "CHR 0x00 \<notin> set m"
    and "r = [] \<or> hd r = CHR '' ''" and "length w \<le> 9"
    and "length (current_word s) = 10"
  shows "copy_current_word m i s =
     (if r = [] then i + length w else i + length w + 1,
      s\<lparr>current_word := w @ CHR 0x00 # drop (length w + 1) (current_word s)\<rparr>)"
    and "c_str (w @ CHR 0x00 # drop (length w + 1) (current_word s)) = w"
proof -
  have "set w \<subseteq> set m"
    using assms(1) by (metis set_drop_subset set_append le_sup_iff)
  with assms(3) have nul: "CHR 0x00 \<notin> set w"
    by auto
  have loop: "copy_word_loop m i 0 s =
     (i + length w, length w, s\<lparr>current_word := w @ drop (length w) (current_word s)\<rparr>)"
    using copy_word_loop_word[of i m w r 0 s] assms nul by simp
  have d: "drop (i + length w) m = r"
    using assms(1) by (metis add.commute append_eq_conv_conj drop_drop)
  have at: "c_at m (i + length w) \<noteq> CHR 0x00 \<longleftrightarrow> r \<noteq> []"
  proof (cases r)
    case Nil
    with d show ?thesis by (simp add: c_at_end)
  next
    case (Cons c r')
    with d have "c_at m (i + length w) = c" by (simp add: c_at_drop)
    moreover from Cons assms(4) have "c = CHR '' ''" by simp
    ultimately show ?thesis using Cons by simp
  qed
  have upd: "(w @ drop (length w) (current_word s))[length w := CHR 0x00] =
             w @ CHR 0x00 # drop (length w + 1) (current_word s)"
    using assms(5,6) by (simp add: list_update_append upd_conv_take_nth_drop Cons_nth_drop_Suc)
  show "copy_current_word m i s =
     (if r = [] then i + length w else i + length w + 1,
      s\<lparr>current_word := w @ CHR 0x00 # drop (length w + 1) (current_word s)\<rparr>)"
    using loop at upd by (simp add: copy_current_word_def Let_def)
  show "c_str (w @ CHR 0x00 # drop (length w + 1) (current_word s)) = w"
    using nul by (auto simp: c_str_def takeWhile_tail takeWhile_eq_all_conv)
qed

lemma split_words_not_Nil: "m \<noteq> [] \<Longrightarrow> split_words m \<noteq> []"
  by (cases m) (auto split: list.splits)

lemma split_words_takeWhile:
  "m \<noteq> [] \<Longrightarrow>
   split_words m =
     takeWhile (\<lambda>c. c \<noteq> CHR '' '') m #
     (case dropWhile (\<lambda>c. c \<noteq> CHR '' '') m of [] \<Rightarrow> [] | c # r \<Rightarrow> split_words r)"
proof (induction m)
  case Nil
  then show ?case by simp
next
  case (Cons a m)
  show ?case
  proof (cases "a = CHR '' ''")
    case True
    then show ?thesis by simp
  next
    case False
    show ?thesis
    proof (cases "m = []")
      case True
      with False show ?thesis by simp
    next
      case ne: False
      from Cons.IH[OF ne] False show ?thesis
        by simp
    qed
  qed
qed

lemma tokens_split_words:
  "tokens m = split_words m @ (if m = [] \<or> last m = CHR '' '' then [[]] else [])"
proof (induction m)
  case Nil
  show ?case by simp
next
  case (Cons a m)
  show ?case
  proof (cases "m = []")
    case True
    then show ?thesis by simp
  next
    case False
    then have "split_words m \<noteq> []"
      by (rule split_words_not_Nil)
    then obtain w ws where "split_words m = w # ws"
      by (cases "split_words m") auto
    with Cons.IH False show ?thesis
      by simp
  qed
qed

lemma split_words_tokens:
  "m \<noteq> [] \<Longrightarrow>
   split_words m = (if last m = CHR '' '' then butlast (tokens m) else tokens m)"
  by (simp add: tokens_split_words)

lemma backup_words_confirmed:
  assumes nul: "CHR 0x00 \<notin> set m" and yes: "\<And>k. button_answer e k"
  shows "i < length m \<Longrightarrow> \<forall>w \<in> set (split_words (drop i m)). length w \<le> 9 \<Longrightarrow>
     length (current_word s) = 10 \<Longrightarrow>
     fst (backup_words e separated m pass i word_pos s) \<and>
     presses (snd (backup_words e separated m pass i word_pos s)) =
       presses s + length (split_words (drop i m)) \<and>
     trace (snd (backup_words e separated m pass i word_pos s)) =
       trace s @ word_calls (split_words (drop i m)) pass word_pos"
proof (induction "length m - i" arbitrary: i word_pos s rule: less_induct)
  case less
  define r where "r = drop i m"
  define w where "w = takeWhile (\<lambda>c. c \<noteq> CHR '' '') r"
  define r2 where "r2 = dropWhile (\<lambda>c. c \<noteq> CHR '' '') r"
  have r: "r = w @ r2"
    by (simp add: w_def r2_def)
  have r_ne: "r \<noteq> []"
    using less.prems(1) by (simp add: r_def)
  have tok: "split_words r = w # (case r2 of [] \<Rightarrow> [] | c # r' \<Rightarrow> split_words r')"
    unfolding w_def r2_def using r_ne by (rule split_words_takeWhile)
  have w_len: "length w \<le> 9"
    using less.prems(2) tok by (simp add: r_def)
  have w_sp: "CHR '' '' \<notin> set w"
    unfolding w_def by (auto dest: set_takeWhileD)
  have r2_hd: "r2 = [] \<or> hd r2 = CHR '' ''"
    unfolding r2_def using hd_dropWhile[of "\<lambda>c. c \<noteq> CHR '' ''" r] by auto
  have nz: "c_at m i \<noteq> CHR 0x00"
    using less.prems(1) nul by (rule c_at_inside)
  define s1 where "s1 = s\<lparr>current_word := w @ CHR 0x00 # drop (length w + 1) (current_word s)\<rparr>"
  define i1 where "i1 = (if r2 = [] then i + length w else i + length w + 1)"
  have dm: "drop i m = w @ r2"
    using r by (simp add: r_def)
  have c: "copy_current_word m i s = (i1, s1)"
    and cs: "c_str (current_word s1) = w"
    using copy_current_word_word[OF dm w_sp nul r2_hd w_len less.prems(3)]
    by (simp_all add: s1_def i1_def)
  define s2 where "s2 = confirm_word w pass word_pos (c_at m i1 = CHR 0x00) s1"
  have step: "backup_words e separated m pass i word_pos s =
              backup_words e separated m pass i1 (word_pos + 1) s2"
    using backup_words_step[OF nz c] yes cs by (simp add: s2_def Let_def)
  have len: "length m = i + length w + length r2"
    using arg_cong[OF dm, of length] less.prems(1) by simp
  show ?case
  proof (cases r2)
    case Nil
    then have i1: "i1 = length m"
      using len by (simp add: i1_def)
    then have e: "c_at m i1 = CHR 0x00"
      by (simp add: c_at_def)
    from Nil tok have "split_words (drop i m) = [w]"
      by (simp add: r_def)
    with step e show ?thesis
      by (simp add: backup_words_end s2_def confirm_word_def s1_def)
  next
    case (Cons c r')
    then have i1: "i1 = i + length w + 1"
      by (simp add: i1_def)
    have "drop i1 m = drop (length w + 1) (drop i m)"
      by (simp add: i1 add.commute)
    then have d1: "drop i1 m = r'"
      using dm Cons by simp
    from Cons tok have t: "split_words (drop i m) = w # split_words r'"
      by (simp add: r_def)
    show ?thesis
    proof (cases "r' = []")
      case True
      with d1 have "length m \<le> i1"
        by simp
      then have e: "c_at m i1 = CHR 0x00"
        by (simp add: c_at_def)
      from True t have "split_words (drop i m) = [w]"
        by simp
      with step e show ?thesis
        by (simp add: backup_words_end s2_def confirm_word_def s1_def)
    next
      case False
      with d1 have lt: "i1 < length m"
        by (metis drop_eq_Nil not_less)
      then have e: "c_at m i1 \<noteq> CHR 0x00"
        using nul by (rule c_at_inside)
      have dec: "length m - i1 < length m - i"
        using lt i1 by simp
      have toks: "\<forall>w \<in> set (split_words (drop i1 m)). length w \<le> 9"
        using less.prems(2) t d1 by simp
      have cw: "length (current_word s2) = 10"
        using w_len less.prems(3) by (simp add: s2_def confirm_word_def s1_def)
      from less.hyps[OF dec lt toks cw, of "word_pos + 1"] step e t d1
        split_words_not_Nil[OF False]
      show ?thesis
        by (simp add: s2_def confirm_word_def s1_def)
    qed
  qed
qed

lemma backup_passes_confirmed:
  assumes "m \<noteq> []" and "CHR 0x00 \<notin> set m"
    and "\<forall>w \<in> set (tokens m). length w \<le> 9" and "\<And>k. button_answer e k"
    and "length (current_word s) = 10"
  shows "fst (backup_passes e separated m 0 s) \<and>
     trace (snd (backup_passes e separated m 0 s)) =
       trace s @ word_calls (split_words m) 0 1 @ word_calls (split_words m) 1 1"
proof -
  obtain d1 s1 where r1: "backup_words e separated m 0 0 1 s = (d1, s1)"
    by force
  have pos: "0 < length m"
    using assms(1) by simp
  have "set (split_words m) \<subseteq> set (tokens m)"
    by (simp add: tokens_split_words)
  then have toks: "\<forall>w \<in> set (split_words (drop 0 m)). length w \<le> 9"
    using assms(3) by auto
  from backup_words_confirmed[OF assms(2,4) pos toks assms(5), of separated 0 1] r1
  have p1: "d1" "trace s1 = trace s @ word_calls (split_words m) 0 1"
    by simp_all
  from backup_words_same[of s e separated m 0 0 1] r1 assms(5)
  have cw: "length (current_word s1) = 10"
    by (simp add: same_session_def)
  obtain d2 s2 where r2: "backup_words e separated m 1 0 1 s1 = (d2, s2)"
    by force
  from backup_words_confirmed[OF assms(2,4) pos toks cw, of separated 1 1] r2
  have p2: "d2" "trace s2 = trace s1 @ word_calls (split_words m) 1 1"
    by simp_all
  from r1 r2 p1 p2 show ?thesis
    by (simp add: backup_passes_unfold)
qed

subsection \<open>A user who confirms every word\<close>

lemma backup_words_all_confirmed:
  assumes "\<And>k. button_answer e k"
  shows "fst (backup_words e separated mnemonic pass i word_pos s)"
proof (induction "length mnemonic - i" arbitrary: i word_pos s rule: less_induct)
  case less
  show ?case
  proof (cases "c_at mnemonic i = CHR 0x00")
    case True
    then show ?thesis
      by (simp add: backup_words_end)
  next
    case False
    obtain i1 s1 where c: "copy_current_word mnemonic i s = (i1, s1)"
      by force
    define s2 where
      "s2 = confirm_word (c_str (current_word s1)) pass word_pos (c_at mnemonic i1 = CHR 0x00) s1"
    from copy_current_word_index[OF c False] have "length mnemonic - i1 < length mnemonic - i"
      by auto
    then have "fst (backup_words e separated mnemonic pass i1 (word_pos + 1) s2)"
      by (rule less)
    then show ?thesis
      using backup_words_step[OF False c] assms by (simp add: s2_def Let_def)
  qed
qed

lemma backup_passes_all_confirmed:
  assumes "\<And>k. button_answer e k"
  shows "fst (backup_passes e separated mnemonic 0 s)"
proof -
  obtain d1 s1 where r1: "backup_words e separated mnemonic 0 0 1 s = (d1, s1)"
    by force
  obtain d2 s2 where r2: "backup_words e separated mnemonic 1 0 1 s1 = (d2, s2)"
    by force
  have "fst (backup_words e separated mnemonic 0 0 1 s)"
    by (rule backup_words_all_confirmed) (rule assms)
  with r1 have d1: "d1"
    by simp
  have "fst (backup_words e separated mnemonic 1 0 1 s1)"
    by (rule backup_words_all_confirmed) (rule assms)
  with r2 have d2: "d2"
    by simp
  from r1 r2 d1 d2 show ?thesis
    by (simp add: backup_passes_unfold)
qed

subsection \<open>Every run of reset\_backup past its guard\<close>

lemma reset_backup_run_done:
  fixes e separated mnemonic s
  defines "completed \<equiv> fst (backup_passes e separated mnemonic 0 (backup_intent separated s))"
  assumes "separated \<Longrightarrow> cfg_needs_backup (cfg s)"
  shows "\<exists>t. list_all word_call t \<and>
     trace (reset_backup e separated mnemonic s) =
       trace (backup_intent separated s) @ t @
       (if completed then completion_calls e separated mnemonic else cancel_calls separated) \<and>
     cfg (reset_backup e separated mnemonic s) =
       (if completed then completion_cfg e separated mnemonic (cfg (backup_intent separated s))
        else cfg (backup_intent separated s)) \<and>
     strength (reset_backup e separated mnemonic s) = strength s \<and>
     int_entropy (reset_backup e separated mnemonic s) = int_entropy s \<and>
     awaiting_entropy (reset_backup e separated mnemonic s) = awaiting_entropy s \<and>
     skip_backup (reset_backup e separated mnemonic s) = skip_backup s \<and>
     no_backup (reset_backup e separated mnemonic s) = no_backup s \<and>
     length (current_word (reset_backup e separated mnemonic s)) = length (current_word s)"
proof -
  define s0 where "s0 = backup_intent separated s"
  obtain d s1 where r: "backup_passes e separated mnemonic 0 s0 = (d, s1)"
    by force
  from backup_passes_shape[of s0 e separated mnemonic] r
  obtain t where t: "list_all word_call t" "same_session s0 s1"
    "trace s1 = trace s0 @ t @ (if d then [] else cancel_calls separated)"
    by auto
  have start: "(if separated
                then config_setNeedsBackup False (config_setUnfinishedBackup True s)
                else s) = s0"
    by (simp add: s0_def backup_intent_def call_defs)
  have run: "reset_backup e separated mnemonic s =
     (if \<not> d then s1
      else
        let s = config_setUnfinishedBackup False s1;
            s = (if separated then fsm_sendSuccess ''Seed successfully backed up'' s
                 else
                   let s = config_setNeedsBackup False s;
                       (ok, s) = config_setMnemonic e mnemonic s
                   in
                   if ok then fsm_sendSuccess ''Device successfully initialized'' s
                   else fsm_sendFailure Failure_ProcessError
                          (Some ''Failed to store mnemonic'') s)
        in layoutHome s)"
    using assms(2) r unfolding reset_backup_def start
    by (auto simp: config_getNeedsBackup_def Let_def)
  have s0_same: "strength s0 = strength s" "int_entropy s0 = int_entropy s"
    "awaiting_entropy s0 = awaiting_entropy s" "skip_backup s0 = skip_backup s"
    "no_backup s0 = no_backup s" "length (current_word s0) = length (current_word s)"
    by (simp_all add: s0_def backup_intent_def)
  show ?thesis
  proof (cases d)
    case False
    with run t s0_same r show ?thesis
      unfolding completed_def s0_def [symmetric]
      by (intro exI[of _ t]) (simp add: same_session_def)
  next
    case True
    with run t s0_same r show ?thesis
      unfolding completed_def s0_def [symmetric]
      by (intro exI[of _ t])
        (simp add: same_session_def completion_calls_def completion_cfg_def call_defs Let_def)
  qed
qed

lemma reset_backup_run:
  assumes "separated \<Longrightarrow> cfg_needs_backup (cfg s)"
  shows "\<exists>t done. list_all word_call t \<and>
     trace (reset_backup e separated mnemonic s) =
       trace (backup_intent separated s) @ t @
       (if done then completion_calls e separated mnemonic else cancel_calls separated) \<and>
     cfg (reset_backup e separated mnemonic s) =
       (if done then completion_cfg e separated mnemonic (cfg (backup_intent separated s))
        else cfg (backup_intent separated s)) \<and>
     strength (reset_backup e separated mnemonic s) = strength s \<and>
     int_entropy (reset_backup e separated mnemonic s) = int_entropy s \<and>
     awaiting_entropy (reset_backup e separated mnemonic s) = awaiting_entropy s \<and>
     skip_backup (reset_backup e separated mnemonic s) = skip_backup s \<and>
     no_backup (reset_backup e separated mnemonic s) = no_backup s \<and>
     length (current_word (reset_backup e separated mnemonic s)) = length (current_word s)"
  using reset_backup_run_done[of separated s e mnemonic, OF assms] by blast

subsection \<open>Mixing\<close>

lemma reset_entropy_mix_eq:
  assumes "length (int_entropy s) = 32"
  shows "reset_entropy_mix e ext_entropy s =
     (wordlist e (take (unat (strength s) div 8) (take 32 (digest e (int_entropy s @ ext_entropy)))),
      s\<lparr>int_entropy := replicate 32 0\<rparr>)"
  using assms
  by (simp add: reset_entropy_mix_def sha256_Init_def sha256_Update_def sha256_Final_def
      mnemonic_from_data_def memzero_def Let_def unat_div)

lemma backup_words_extends:
  "\<exists>t. trace (snd (backup_words e separated mnemonic pass i word_pos s)) = trace s @ t"
  using backup_words_shape[of s e separated mnemonic pass i word_pos] by auto

lemma reset_backup_home:
  assumes "separated \<Longrightarrow> cfg_needs_backup (cfg s)"
  shows "\<exists>new. trace (reset_backup e separated mnemonic s) = trace s @ new \<and>
           LayoutHome \<in> set new"
proof -
  from reset_backup_run[of separated s e mnemonic, OF assms]
  obtain t d where tr: "trace (reset_backup e separated mnemonic s) =
       trace (backup_intent separated s) @ t @
       (if d then completion_calls e separated mnemonic else cancel_calls separated)"
    by blast
  define pre where "pre = (if separated
    then [ConfigSetUnfinishedBackup True, ConfigSetNeedsBackup False] else [])"
  have "trace (backup_intent separated s) = trace s @ pre"
    by (simp add: backup_intent_def pre_def)
  with tr have "trace (reset_backup e separated mnemonic s) =
       trace s @ (pre @ t @
       (if d then completion_calls e separated mnemonic else cancel_calls separated))"
    by simp
  moreover have "LayoutHome \<in> set (pre @ t @
       (if d then completion_calls e separated mnemonic else cancel_calls separated))"
    by (simp add: completion_calls_def cancel_calls_def)
  ultimately show ?thesis
    by blast
qed

lemma reset_backup_int_entropy:
  "int_entropy (reset_backup e separated mnemonic s) = int_entropy s \<and>
   awaiting_entropy (reset_backup e separated mnemonic s) = awaiting_entropy s"
proof (cases "separated \<and> \<not> cfg_needs_backup (cfg s)")
  case True
  then show ?thesis
    by (simp add: reset_backup_def call_defs)
next
  case False
  then have "separated \<Longrightarrow> cfg_needs_backup (cfg s)"
    by simp
  from reset_backup_run[of separated s e mnemonic, OF this] show ?thesis
    by blast
qed

lemma reset_backup_lengths:
  "length (int_entropy (reset_backup e separated mnemonic s)) = length (int_entropy s) \<and>
   length (current_word (reset_backup e separated mnemonic s)) = length (current_word s) \<and>
   strength (reset_backup e separated mnemonic s) = strength s"
proof (cases "separated \<and> \<not> cfg_needs_backup (cfg s)")
  case True
  then show ?thesis
    by (simp add: reset_backup_def call_defs)
next
  case False
  then have "separated \<Longrightarrow> cfg_needs_backup (cfg s)"
    by simp
  from reset_backup_run[of separated s e mnemonic, OF this] show ?thesis
    by auto
qed

subsection \<open>The word left in current\_word\<close>

lemma last_shown_append:
  "last_shown (xs @ ys) = (case last_shown ys of Some w \<Rightarrow> Some w | None \<Rightarrow> last_shown xs)"
  by (induction xs) (auto split: option.splits call.splits)

lemma last_shown_cancel: "last_shown (cancel_calls separated) = None"
  by (simp add: cancel_calls_def)

lemma last_shown_completion: "last_shown (completion_calls e separated mnemonic) = None"
  by (simp add: completion_calls_def)

lemma holds_last_shown_refl: "holds_last_shown s s"
  by (simp add: holds_last_shown_def)

lemma holds_last_shown_trans:
  assumes "holds_last_shown s s1" and "holds_last_shown s1 s2"
    and "trace s1 = trace s @ t1" and "trace s2 = trace s1 @ t2"
  shows "holds_last_shown s s2"
  using assms
  by (auto simp: holds_last_shown_def last_shown_append split: option.splits)

lemma backup_words_holds_last_shown:
  "holds_last_shown s (snd (backup_words e separated mnemonic pass i word_pos s))"
proof (induction "length mnemonic - i" arbitrary: i word_pos s rule: less_induct)
  case less
  show ?case
  proof (cases "c_at mnemonic i = CHR 0x00")
    case True
    then show ?thesis
      by (simp add: backup_words_end holds_last_shown_refl)
  next
    case False
    obtain i1 s1 where c: "copy_current_word mnemonic i s = (i1, s1)"
      by force
    define w where "w = c_str (current_word s1)"
    define s2 where "s2 = confirm_word w pass word_pos (c_at mnemonic i1 = CHR 0x00) s1"
    define t0 where
      "t0 = [LayoutResetWord w pass word_pos (c_at mnemonic i1 = CHR 0x00),
             ProtectButton ButtonRequest_ConfirmWord True]"
    from copy_current_word_same[OF c]
    have tr2: "trace s2 = trace s @ t0" and cw2: "current_word s2 = current_word s1"
      by (simp_all add: s2_def t0_def confirm_word_def)
    have h2: "holds_last_shown s s2"
      using tr2 cw2 by (simp add: holds_last_shown_def t0_def w_def)
    show ?thesis
    proof (cases "button_answer e (presses s1)")
      case True
      have eq: "backup_words e separated mnemonic pass i word_pos s =
                backup_words e separated mnemonic pass i1 (word_pos + 1) s2"
        using backup_words_step[OF False c] True by (simp add: s2_def w_def Let_def)
      from copy_current_word_index[OF c False] have "length mnemonic - i1 < length mnemonic - i"
        by auto
      then have h: "holds_last_shown s2 (snd (backup_words e separated mnemonic pass i1 (word_pos + 1) s2))"
        by (rule less)
      from backup_words_shape[of s2 e separated mnemonic pass i1 "word_pos + 1"]
      obtain t where "trace (snd (backup_words e separated mnemonic pass i1 (word_pos + 1) s2)) =
          trace s2 @ t @ (if fst (backup_words e separated mnemonic pass i1 (word_pos + 1) s2) then []
             else cancel_calls separated)"
        by blast
      from holds_last_shown_trans[OF h2 h tr2 this] eq show ?thesis
        by simp
    next
      case no: False
      have eq: "backup_words e separated mnemonic pass i word_pos s =
                (False, s2\<lparr>trace := trace s2 @ cancel_calls separated\<rparr>)"
        using backup_words_step[OF False c] no by (simp add: s2_def w_def Let_def)
      show ?thesis
        using tr2 cw2
        by (simp add: eq holds_last_shown_def last_shown_append last_shown_cancel t0_def w_def)
    qed
  qed
qed

lemma backup_passes_holds_last_shown:
  "holds_last_shown s (snd (backup_passes e separated mnemonic 0 s)) \<and>
   (\<exists>t. trace (snd (backup_passes e separated mnemonic 0 s)) = trace s @ t)"
proof -
  obtain d1 s1 where r1: "backup_words e separated mnemonic 0 0 1 s = (d1, s1)"
    by force
  from backup_words_holds_last_shown[of s e separated mnemonic 0 0 1] r1
  have h1: "holds_last_shown s s1"
    by simp
  from backup_words_extends[of e separated mnemonic 0 0 1 s] r1
  obtain t1 where t1: "trace s1 = trace s @ t1"
    by auto
  show ?thesis
  proof (cases d1)
    case False
    with r1 have "backup_passes e separated mnemonic 0 s = (False, s1)"
      by (simp add: backup_passes_unfold)
    with h1 t1 show ?thesis
      by simp
  next
    case True
    obtain d2 s2 where r2: "backup_words e separated mnemonic 1 0 1 s1 = (d2, s2)"
      by force
    from backup_words_holds_last_shown[of s1 e separated mnemonic 1 0 1] r2
    have h2: "holds_last_shown s1 s2"
      by simp
    from backup_words_extends[of e separated mnemonic 1 0 1 s1] r2
    obtain t2 where t2: "trace s2 = trace s1 @ t2"
      by auto
    from r1 r2 True have eq: "backup_passes e separated mnemonic 0 s = (d2, s2)"
      by (simp add: backup_passes_unfold)
    from holds_last_shown_trans[OF h1 h2 t1 t2] t1 t2 eq show ?thesis
      by simp
  qed
qed

lemma reset_backup_holds_last_shown:
  "holds_last_shown s (reset_backup e separated mnemonic s)"
proof (cases "separated \<and> \<not> cfg_needs_backup (cfg s)")
  case True
  then show ?thesis
    by (simp add: reset_backup_def call_defs holds_last_shown_def)
next
  case guard: False
  define s0 where "s0 = backup_intent separated s"
  have start: "(if separated
                then config_setNeedsBackup False (config_setUnfinishedBackup True s)
                else s) = s0"
    by (simp add: s0_def backup_intent_def call_defs)
  obtain d s1 where r: "backup_passes e separated mnemonic 0 s0 = (d, s1)"
    by force
  from backup_passes_holds_last_shown[of s0 e separated mnemonic] r
  obtain t where h: "holds_last_shown s0 s1" and t: "trace s1 = trace s0 @ t"
    by auto
  have h0: "holds_last_shown s s0"
    by (simp add: s0_def backup_intent_def holds_last_shown_def)
  define t0 where "t0 = (if separated
    then [ConfigSetUnfinishedBackup True, ConfigSetNeedsBackup False] else [])"
  have t0: "trace s0 = trace s @ t0"
    by (simp add: s0_def backup_intent_def t0_def)
  have h1: "holds_last_shown s s1"
    using holds_last_shown_trans[OF h0 h t0 t] .
  show ?thesis
  proof (cases d)
    case False
    with r guard h1 show ?thesis
      unfolding reset_backup_def start
      by (auto simp: config_getNeedsBackup_def)
  next
    case True
    define s2 where "s2 = reset_backup e separated mnemonic s"
    have "current_word s2 = current_word s1 \<and>
          trace s2 = trace s1 @ completion_calls e separated mnemonic"
      using r True guard
      unfolding s2_def reset_backup_def start
      by (auto simp: config_getNeedsBackup_def completion_calls_def call_defs Let_def)
    then have h2: "holds_last_shown s1 s2" and t2: "trace s2 = trace s1 @ completion_calls e separated mnemonic"
      by (simp_all add: holds_last_shown_def last_shown_completion)
    have t1: "trace s1 = trace s @ (t0 @ t)"
      using t t0 by simp
    from holds_last_shown_trans[OF h1 h2 t1 t2] show ?thesis
      by (simp add: s2_def)
  qed
qed

subsection \<open>Every run of reset\_entropy in reset mode\<close>

lemma reset_entropy_mix_frame:
  "length (int_entropy s) = 32 \<Longrightarrow>
   trace (snd (reset_entropy_mix e ext_entropy s)) = trace s \<and>
   awaiting_entropy (snd (reset_entropy_mix e ext_entropy s)) = awaiting_entropy s \<and>
   int_entropy (snd (reset_entropy_mix e ext_entropy s)) =
     replicate 32 0 @ drop 32 (int_entropy s)"
  by (simp add: reset_entropy_mix_def sha256_Final_def memzero_def Let_def)

lemma reset_entropy_run:
  assumes "awaiting_entropy s"
  shows "reset_entropy e ext_entropy s =
     mnemonic_clear (reset_entropy_dispatch e
       (fst (reset_entropy_mix e ext_entropy (s\<lparr>awaiting_entropy := False\<rparr>)))
       (snd (reset_entropy_mix e ext_entropy (s\<lparr>awaiting_entropy := False\<rparr>))))"
  using assms by (simp add: reset_entropy_def Let_def split_beta)

lemma reset_entropy_dispatch_frame:
  "int_entropy (reset_entropy_dispatch e mnemonic s) = int_entropy s \<and>
   awaiting_entropy (reset_entropy_dispatch e mnemonic s) = awaiting_entropy s"
proof (cases "skip_backup s \<or> no_backup s")
  case True
  then show ?thesis
    by (auto simp: reset_entropy_dispatch_def call_defs Let_def)
next
  case False
  then show ?thesis
    using reset_backup_int_entropy[of e False mnemonic s]
    by (simp add: reset_entropy_dispatch_def)
qed

lemma reset_entropy_dispatch_home:
  "\<exists>new. trace (reset_entropy_dispatch e mnemonic s) = trace s @ new \<and> LayoutHome \<in> set new"
proof (cases "skip_backup s \<or> no_backup s")
  case True
  then show ?thesis
    by (auto simp: reset_entropy_dispatch_def call_defs Let_def)
next
  case False
  then show ?thesis
    using reset_backup_home[of False s e mnemonic]
    by (simp add: reset_entropy_dispatch_def)
qed

lemma reset_entropy_dispatch_lengths:
  "length (current_word (reset_entropy_dispatch e mnemonic s)) = length (current_word s)"
proof (cases "skip_backup s \<or> no_backup s")
  case True
  then show ?thesis
    by (auto simp: reset_entropy_dispatch_def call_defs Let_def)
next
  case False
  then show ?thesis
    using reset_backup_lengths[of e False mnemonic s]
    by (simp add: reset_entropy_dispatch_def)
qed

lemma reset_entropy_dispatch_statics:
  "strength (reset_entropy_dispatch e mnemonic s) = strength s \<and>
   skip_backup (reset_entropy_dispatch e mnemonic s) = skip_backup s \<and>
   no_backup (reset_entropy_dispatch e mnemonic s) = no_backup s"
proof (cases "skip_backup s \<or> no_backup s")
  case True
  then show ?thesis
    by (auto simp: reset_entropy_dispatch_def call_defs Let_def)
next
  case False
  then show ?thesis
    using reset_backup_run[of False s e mnemonic]
    by (auto simp: reset_entropy_dispatch_def)
qed

lemma reset_entropy_not_awaiting:
  "\<not> awaiting_entropy (reset_entropy e ext_entropy s)"
proof (cases "awaiting_entropy s")
  case False
  then show ?thesis
    by (simp add: reset_entropy_def call_defs)
next
  case True
  then show ?thesis
    using reset_entropy_dispatch_frame
    by (simp add: reset_entropy_run mnemonic_clear_def emit_def reset_entropy_mix_def Let_def)
qed

subsection \<open>Every run of reset\_init\<close>

lemmas reset_init_defs = reset_init_def reset_init_outcome_def call_defs Let_def
  create_wallet_dialog_def entropy_dialog_def

lemma reset_init_eq_outcome:
  "reset_init e dr st pp pin lang lab u2f skip nb s =
   reset_init_outcome e dr st pp pin lang lab u2f skip nb s"
proof (cases "st \<noteq> 128 \<and> st \<noteq> 192 \<and> st \<noteq> 256")
  case True
  then show ?thesis
    by (simp add: reset_init_def reset_init_outcome_def Let_def)
next
  case valid: False
  show ?thesis
  proof (cases "dr \<and> (skip \<or> nb)")
    case True
    then show ?thesis
      by (simp add: valid reset_init_defs)
  next
    case compat: False
    show ?thesis
    proof (cases "button_answer e (presses s)")
      case False
      with compat show ?thesis
        by (simp add: valid reset_init_defs)
    next
      case yes1: True
      show ?thesis
      proof (cases "dr \<and> \<not> button_answer e (Suc (presses s))")
        case True
        with compat yes1 show ?thesis
          by (simp add: valid reset_init_defs)
      next
        case yes2: False
        show ?thesis
        proof (cases "pin \<and> \<not> pin_answer e")
          case True
          with compat yes1 yes2 show ?thesis
            by (cases dr) (simp_all add: valid reset_init_defs)
        next
          case False
          with compat yes1 yes2 show ?thesis
            by (cases dr; cases pin) (simp_all add: valid reset_init_defs)
        qed
      qed
    qed
  qed
qed

subsection \<open>Well-formed states\<close>

text \<open>
  The state before any reset is well formed, and the three handlers keep a state well
  formed: the hypotheses on buffer sizes and on the strength in the claims below hold in
  every state the firmware can reach.
\<close>

lemma well_formed_s0: "well_formed s0"
  by (simp add: well_formed_def s0_def)

lemma well_formed_reset_init:
  "well_formed s \<Longrightarrow> well_formed (reset_init e dr st pp pin lang lab u2f skip nb s)"
  unfolding reset_init_eq_outcome
  by (auto simp: well_formed_def reset_init_outcome_def Let_def random_buffer_def)

lemma well_formed_reset_backup:
  "well_formed s \<Longrightarrow> well_formed (reset_backup e separated mnemonic s)"
  using reset_backup_lengths[of e separated mnemonic s]
    reset_backup_int_entropy[of e separated mnemonic s]
  by (simp add: well_formed_def)

lemma well_formed_reset_entropy:
  assumes "well_formed s"
  shows "well_formed (reset_entropy e ext_entropy s)"
proof (cases "awaiting_entropy s")
  case False
  with assms show ?thesis
    by (simp add: reset_entropy_def call_defs well_formed_def)
next
  case True
  define s1 where "s1 = snd (reset_entropy_mix e ext_entropy (s\<lparr>awaiting_entropy := False\<rparr>))"
  define m where "m = fst (reset_entropy_mix e ext_entropy (s\<lparr>awaiting_entropy := False\<rparr>))"
  have run: "reset_entropy e ext_entropy s = mnemonic_clear (reset_entropy_dispatch e m s1)"
    using True unfolding m_def s1_def by (rule reset_entropy_run)
  have len: "length (int_entropy s) = 32" "length (current_word s) = 10"
    using assms by (simp_all add: well_formed_def)
  have "int_entropy s1 = replicate 32 0"
    using reset_entropy_mix_frame[of "s\<lparr>awaiting_entropy := False\<rparr>" e ext_entropy] len
    by (simp add: s1_def)
  moreover have "current_word s1 = current_word s"
    by (simp add: s1_def reset_entropy_mix_def Let_def)
  ultimately have "length (int_entropy (reset_entropy e ext_entropy s)) = 32"
    and "length (current_word (reset_entropy e ext_entropy s)) = 10"
    using reset_entropy_dispatch_frame[of e m s1] reset_entropy_dispatch_lengths[of e m s1] len
    by (simp_all add: run mnemonic_clear_def emit_def)
  then show ?thesis
    using reset_entropy_not_awaiting[of e ext_entropy s] by (simp add: well_formed_def)
qed

subsection \<open>Evaluating the loops on a given string\<close>

lemmas loop_simps = backup_passes.simps backup_words.simps copy_word_loop.simps
  copy_current_word_def c_at_def c_str_def

section \<open>Claims\<close>

text \<open>
  C1, as the code has it. The claim says that every exit path of the reset and backup
  workflows zeroes \<open>int_entropy\<close> and \<open>current_word\<close>, cancellations included. The code
  zeroes \<open>int_entropy\<close> in one place, line 108 of \<open>reset_entropy\<close>, and \<open>current_word\<close>
  nowhere. What holds: \<open>reset_entropy\<close> in reset mode returns with the 32 bytes of
  \<open>int_entropy\<close> zero on every exit path (stored, not stored, backup confirmed, backup
  cancelled); \<open>reset_backup\<close> never writes \<open>int_entropy\<close>, and leaves in \<open>current_word\<close> the
  last word it displayed; \<open>reset_init\<close> never writes \<open>current_word\<close>, leaves
  \<open>int_entropy\<close> as it was when the create-wallet confirmation is declined, and on every
  path past that confirmation, a declined entropy display and a failed PIN setup
  included, leaves the 32 fresh random bytes in it.
\<close>

theorem entropy_buffer_zeroing:
  fixes e dr st pp pin lang lab u2f skip nb s
  defines "s' \<equiv> reset_init e dr st pp pin lang lab u2f skip nb s"
  shows
  "(awaiting_entropy s \<and> length (int_entropy s) = 32 \<longrightarrow>
      int_entropy (reset_entropy e ext_entropy s) = replicate 32 0) \<and>
   int_entropy (reset_backup e separated mnemonic s) = int_entropy s \<and>
   holds_last_shown s (reset_backup e separated mnemonic s) \<and>
   current_word s' = current_word s \<and>
   (\<not> button_answer e (presses s) \<longrightarrow> int_entropy s' = int_entropy s) \<and>
   (button_answer e (presses s) \<and> (st = 128 \<or> st = 192 \<or> st = 256) \<and>
    \<not> (dr \<and> (skip \<or> nb)) \<and> length (int_entropy s) = 32 \<longrightarrow>
      int_entropy s' = map (random_bytes e) [0..<32])"
proof (intro conjI impI)
  assume a: "awaiting_entropy s \<and> length (int_entropy s) = 32"
  then have "reset_entropy e ext_entropy s =
     mnemonic_clear (reset_entropy_dispatch e
       (fst (reset_entropy_mix e ext_entropy (s\<lparr>awaiting_entropy := False\<rparr>)))
       (snd (reset_entropy_mix e ext_entropy (s\<lparr>awaiting_entropy := False\<rparr>))))"
    by (simp add: reset_entropy_run)
  then show "int_entropy (reset_entropy e ext_entropy s) = replicate 32 0"
    using a reset_entropy_dispatch_frame
      reset_entropy_mix_frame[of "s\<lparr>awaiting_entropy := False\<rparr>" e ext_entropy]
    by (simp add: mnemonic_clear_def emit_def)
next
  show "int_entropy (reset_backup e separated mnemonic s) = int_entropy s"
    by (simp add: reset_backup_int_entropy)
next
  show "holds_last_shown s (reset_backup e separated mnemonic s)"
    by (rule reset_backup_holds_last_shown)
next
  show "current_word s' = current_word s"
    unfolding s'_def reset_init_eq_outcome
    by (simp add: reset_init_outcome_def Let_def)
next
  assume "\<not> button_answer e (presses s)"
  then show "int_entropy s' = int_entropy s"
    unfolding s'_def reset_init_eq_outcome
    by (simp add: reset_init_outcome_def Let_def)
next
  assume "button_answer e (presses s) \<and> (st = 128 \<or> st = 192 \<or> st = 256) \<and>
    \<not> (dr \<and> (skip \<or> nb)) \<and> length (int_entropy s) = 32"
  then show "int_entropy s' = map (random_bytes e) [0..<32]"
    unfolding s'_def reset_init_eq_outcome
    by (auto simp: reset_init_outcome_def Let_def random_buffer_def)
qed

text \<open>
  The witness of C1: an entropy message in reset mode, a declined create-wallet
  confirmation, and a failed PIN setup.
\<close>

theorem entropy_buffer_zeroing_witness:
  "int_entropy (reset_entropy env_yes [1, 2, 3] s_await) = replicate 32 0 \<and>
   int_entropy (reset_init env_no False 128 False False None None 0 False False s0) =
     replicate 32 0 \<and>
   int_entropy (reset_init env_pin_fails False 128 False True None None 0 False False s0) =
     replicate 32 0xAB"
  using entropy_buffer_zeroing [where e = env_yes and s = s_await and ext_entropy = "[1, 2, 3]"]
    entropy_buffer_zeroing [where e = env_no and s = s0 and st = 128 and dr = False
      and skip = False and nb = False and pin = False and pp = False and lang = None
      and lab = None and ?u2f = 0]
    entropy_buffer_zeroing [where e = env_pin_fails and s = s0 and st = 128 and dr = False
      and skip = False and nb = False and pin = True and pp = False and lang = None
      and lab = None and ?u2f = 0]
  by (simp add: s_await_def s0_def env_no_def env_pin_fails_def env_yes_def map_replicate_const)

text \<open>
  The counterexample of C1. The user confirms the create-wallet dialog and declines the
  entropy display: \<open>reset_init\<close> goes home and returns with the random bytes, here all
  \<open>0xAB\<close>, still in \<open>int_entropy\<close>. The same with a failed PIN setup. After a confirmed
  backup of the mnemonic "ab cd", \<open>current_word\<close> still holds the word "cd".
\<close>

theorem secret_buffers_counterexample:
  "int_entropy (reset_init env_decline_entropy True 128 False False None None 0 False False s0) =
     replicate 32 0xAB \<and>
   last (trace (reset_init env_decline_entropy True 128 False False None None 0 False False s0)) =
     LayoutHome \<and>
   int_entropy (reset_init env_pin_fails False 128 False True None None 0 False False s0) =
     replicate 32 0xAB \<and>
   current_word (reset_backup env_yes False ''ab cd'' s0) =
     [CHR ''c'', CHR ''d'', CHR 0x00, CHR 0x00, CHR 0x00,
      CHR 0x00, CHR 0x00, CHR 0x00, CHR 0x00, CHR 0x00]"
  by (simp add: reset_init_def reset_backup_def call_defs Let_def env_decline_entropy_def
      env_pin_fails_def env_yes_def s0_def random_buffer_def data2hex_def map_replicate_const
      loop_simps)

text \<open>
  C2. In reset mode, with a 32-byte \<open>int_entropy\<close>, a digest primitive that returns 32
  bytes and one of the three strengths: \<open>reset_entropy\<close> derives the mnemonic from the
  first \<open>strength / 8\<close> bytes of the digest of \<open>int_entropy\<close> followed by the external bytes,
  that prefix has 16, 24 or 32 bytes, and everything after the derivation (the dispatch on
  the backup flags, and the final \<open>mnemonic_clear\<close>) starts from a state whose
  \<open>int_entropy\<close> is 32 zero bytes.
\<close>

theorem reset_entropy_mixes_digest:
  assumes "awaiting_entropy s" and "length (int_entropy s) = 32"
    and "length (digest e (int_entropy s @ ext_entropy)) = 32"
    and "strength s = 128 \<or> strength s = 192 \<or> strength s = 256"
  shows "reset_entropy e ext_entropy s =
           mnemonic_clear (reset_entropy_dispatch e
             (wordlist e (take (unat (strength s) div 8) (digest e (int_entropy s @ ext_entropy))))
             (s\<lparr>awaiting_entropy := False, int_entropy := replicate 32 0\<rparr>)) \<and>
         length (take (unat (strength s) div 8) (digest e (int_entropy s @ ext_entropy))) =
           unat (strength s) div 8 \<and>
         unat (strength s) div 8 \<in> {16, 24, 32}"
proof -
  have n: "unat (strength s) div 8 \<in> {16, 24, 32}"
    using assms(4) by auto
  have mix: "reset_entropy_mix e ext_entropy (s\<lparr>awaiting_entropy := False\<rparr>) =
     (wordlist e (take (unat (strength s) div 8) (digest e (int_entropy s @ ext_entropy))),
      s\<lparr>awaiting_entropy := False, int_entropy := replicate 32 0\<rparr>)"
    using reset_entropy_mix_eq[of "s\<lparr>awaiting_entropy := False\<rparr>" e ext_entropy] assms(2,3)
    by simp
  have "reset_entropy e ext_entropy s =
           mnemonic_clear (reset_entropy_dispatch e
             (wordlist e (take (unat (strength s) div 8) (digest e (int_entropy s @ ext_entropy))))
             (s\<lparr>awaiting_entropy := False, int_entropy := replicate 32 0\<rparr>))"
    using assms(1) by (simp add: reset_entropy_def mix Let_def)
  moreover have "length (take (unat (strength s) div 8) (digest e (int_entropy s @ ext_entropy))) =
           unat (strength s) div 8"
    using n assms(3) by auto
  ultimately show ?thesis
    using n by simp
qed

text \<open>
  The witness of C2: strength 128, three external bytes; the stand-in digest of 35 bytes
  is 32 bytes of value 35, and the stand-in word list gives "ab cd" for 16 bytes.
\<close>

theorem reset_entropy_mixes_digest_witness:
  "reset_entropy env_yes [1, 2, 3] s_await =
     mnemonic_clear (reset_entropy_dispatch env_yes
       ''ab cd''
       (s_await\<lparr>awaiting_entropy := False, int_entropy := replicate 32 0\<rparr>))"
  using reset_entropy_mixes_digest [of s_await env_yes "[1, 2, 3]"]
  by (simp add: s_await_def s0_def env_yes_def)

text \<open>
  C3. An entropy message that arrives while \<open>awaiting_entropy\<close> is false: \<open>reset_entropy\<close>
  sends the failure \<open>UnexpectedMessage\<close> with the text "Not in Reset mode" and returns. The
  result is the state it was called in with that one call added to the trace: no static and
  no field of the configuration store has changed, nothing was mixed, no mnemonic derived.
\<close>

theorem reset_entropy_not_in_reset_mode:
  "\<not> awaiting_entropy s \<Longrightarrow>
     reset_entropy e ext_entropy s =
       s\<lparr>trace := trace s @ [FsmSendFailure Failure_UnexpectedMessage (Some ''Not in Reset mode'')]\<rparr>"
  by (simp add: reset_entropy_def call_defs)

text \<open>The witness of C3: an entropy message to a device that never asked for one.\<close>

theorem reset_entropy_not_in_reset_mode_witness:
  "\<not> awaiting_entropy s0 \<and>
   reset_entropy env_yes [1, 2, 3] s0 =
     s0\<lparr>trace := [FsmSendFailure Failure_UnexpectedMessage (Some ''Not in Reset mode'')]\<rparr>"
  using reset_entropy_not_in_reset_mode [of s0 env_yes "[1, 2, 3]"]
  by (simp add: s0_def)

text \<open>
  C4. A separated \<open>reset_backup\<close>. When \<open>needs_backup\<close> is false it sends the failure
  \<open>UnexpectedMessage\<close> with the text "Seed already backed up" and changes nothing else,
  \<open>unfinished_backup\<close> included. When \<open>needs_backup\<close> is true its first two calls set
  \<open>unfinished_backup\<close> to true and \<open>needs_backup\<close> to false; every word display and every
  confirmation request comes after them (the list \<open>t\<close>), followed by the calls of a
  completed or of a cancelled backup; at the end \<open>needs_backup\<close> is false and
  \<open>unfinished_backup\<close> is true exactly when the backup was cancelled.
\<close>

theorem reset_backup_separated:
  "(\<not> cfg_needs_backup (cfg s) \<longrightarrow>
      reset_backup e True mnemonic s =
        s\<lparr>trace := trace s @
            [FsmSendFailure Failure_UnexpectedMessage (Some ''Seed already backed up'')]\<rparr>) \<and>
   (cfg_needs_backup (cfg s) \<longrightarrow>
      (\<exists>t done. list_all word_call t \<and>
         trace (reset_backup e True mnemonic s) =
           trace s @ [ConfigSetUnfinishedBackup True, ConfigSetNeedsBackup False] @ t @
           (if done then completion_calls e True mnemonic else cancel_calls True) \<and>
         cfg (reset_backup e True mnemonic s) =
           (cfg s)\<lparr>cfg_needs_backup := False, cfg_unfinished_backup := \<not> done\<rparr>))"
proof (intro conjI impI)
  assume "\<not> cfg_needs_backup (cfg s)"
  then show "reset_backup e True mnemonic s =
        s\<lparr>trace := trace s @
            [FsmSendFailure Failure_UnexpectedMessage (Some ''Seed already backed up'')]\<rparr>"
    by (simp add: reset_backup_def call_defs)
next
  assume owed: "cfg_needs_backup (cfg s)"
  from reset_backup_run[of True s e mnemonic] owed
  obtain t d where t: "list_all word_call t"
    and tr: "trace (reset_backup e True mnemonic s) =
       trace (backup_intent True s) @ t @
       (if d then completion_calls e True mnemonic else cancel_calls True)"
    and c: "cfg (reset_backup e True mnemonic s) =
       (if d then completion_cfg e True mnemonic (cfg (backup_intent True s))
        else cfg (backup_intent True s))"
    by blast
  show "\<exists>t done. list_all word_call t \<and>
         trace (reset_backup e True mnemonic s) =
           trace s @ [ConfigSetUnfinishedBackup True, ConfigSetNeedsBackup False] @ t @
           (if done then completion_calls e True mnemonic else cancel_calls True) \<and>
         cfg (reset_backup e True mnemonic s) =
           (cfg s)\<lparr>cfg_needs_backup := False, cfg_unfinished_backup := \<not> done\<rparr>"
    using t tr c
    by (intro exI[of _ t] exI[of _ d]) (simp add: backup_intent_def completion_cfg_def)
qed

text \<open>
  The witness of C4: no backup owed, and a backup owed with a user who declines the
  first word.
\<close>

theorem reset_backup_separated_witness:
  "reset_backup env_yes True ''ab'' s0 =
     s0\<lparr>trace := [FsmSendFailure Failure_UnexpectedMessage (Some ''Seed already backed up'')]\<rparr> \<and>
   (\<exists>t done. list_all word_call t \<and>
      trace (reset_backup env_no True ''ab'' s_owed) =
        [ConfigSetUnfinishedBackup True, ConfigSetNeedsBackup False] @ t @
        (if done then completion_calls env_no True ''ab'' else cancel_calls True) \<and>
      cfg (reset_backup env_no True ''ab'' s_owed) =
        cfg0\<lparr>cfg_needs_backup := False, cfg_unfinished_backup := \<not> done\<rparr>)"
  using reset_backup_separated [of s0 env_yes "''ab''"]
    reset_backup_separated [of s_owed env_no "''ab''"]
  by (simp add: s0_def s_owed_def cfg0_def)

text \<open>
  C5, evaluated where the code departs from it. The claim says that the characters of a
  word beyond the ninth are dropped and that the step then moves past the separator. On
  the mnemonic "abcdefghijkl mn" the block under \<open>copy current_word\<close> copies "abcdefghi"
  and moves one character on, to index 10: it has skipped the letter "j", not the
  separator at index 12, and the rest of the word, "kl", is displayed as word 2.
\<close>

theorem long_word_split:
  "copy_current_word ''abcdefghijkl mn'' 0 s0 =
     (10, s0\<lparr>current_word := ''abcdefghi'' @ [CHR 0x00]\<rparr>) \<and>
   trace (reset_backup env_yes False ''abcdefghijkl mn'' s0) =
     [LayoutResetWord ''abcdefghi'' 0 1 False, ProtectButton ButtonRequest_ConfirmWord True,
      LayoutResetWord ''kl'' 0 2 False, ProtectButton ButtonRequest_ConfirmWord True,
      LayoutResetWord ''mn'' 0 3 True, ProtectButton ButtonRequest_ConfirmWord True,
      LayoutResetWord ''abcdefghi'' 1 1 False, ProtectButton ButtonRequest_ConfirmWord True,
      LayoutResetWord ''kl'' 1 2 False, ProtectButton ButtonRequest_ConfirmWord True,
      LayoutResetWord ''mn'' 1 3 True, ProtectButton ButtonRequest_ConfirmWord True,
      ConfigSetUnfinishedBackup False, ConfigSetNeedsBackup False,
      ConfigSetMnemonic ''abcdefghijkl mn'',
      FsmSendSuccess ''Device successfully initialized'', LayoutHome]"
  by (simp add: reset_backup_def call_defs Let_def env_yes_def s0_def loop_simps)

text \<open>
  C6, as the code has it. A non-empty mnemonic whose space-delimited tokens have at most
  9 characters, and a user who confirms every word. \<open>reset_backup\<close> then makes these calls
  and no others: the two flag writes of a separated backup; one traversal of the words
  with pass 0; one with pass 1; the completion calls. In a traversal (\<open>word_calls\<close>) each
  word is displayed in order and then confirmed, the position starts at 1 and grows by
  one per word, and the last-word flag is set on the last word only. When the mnemonic
  does not end in a space the words are all its tokens, as the claim says. When it ends
  in a space, the empty token after that space is not displayed, and the word before it
  carries the last-word flag. The mnemonic is a C string, so it holds no NUL.
\<close>

theorem reset_backup_two_passes:
  assumes "mnemonic \<noteq> []" and "CHR 0x00 \<notin> set mnemonic"
    and "\<forall>w \<in> set (tokens mnemonic). length w \<le> 9"
    and "\<forall>k. button_answer e k"
    and "length (current_word s) = 10"
    and "separated \<longrightarrow> cfg_needs_backup (cfg s)"
  shows
   "(last mnemonic \<noteq> CHR '' '' \<longrightarrow>
       trace (reset_backup e separated mnemonic s) =
         trace s @
         (if separated then [ConfigSetUnfinishedBackup True, ConfigSetNeedsBackup False] else []) @
         word_calls (tokens mnemonic) 0 1 @
         word_calls (tokens mnemonic) 1 1 @
         completion_calls e separated mnemonic) \<and>
    (last mnemonic = CHR '' '' \<longrightarrow>
       trace (reset_backup e separated mnemonic s) =
         trace s @
         (if separated then [ConfigSetUnfinishedBackup True, ConfigSetNeedsBackup False] else []) @
         word_calls (butlast (tokens mnemonic)) 0 1 @
         word_calls (butlast (tokens mnemonic)) 1 1 @
         completion_calls e separated mnemonic)"
proof -
  define s1 where "s1 = backup_intent separated s"
  have start: "(if separated
                then config_setNeedsBackup False (config_setUnfinishedBackup True s)
                else s) = s1"
    by (simp add: s1_def backup_intent_def call_defs)
  have cw: "length (current_word s1) = 10"
    using assms(5) by (simp add: s1_def backup_intent_def)
  have yes: "\<And>k. button_answer e k"
    using assms(4) by simp
  obtain d s2 where r: "backup_passes e separated mnemonic 0 s1 = (d, s2)"
    by force
  from backup_passes_confirmed[OF assms(1,2,3) yes cw, of separated] r
  have d: "d" and tr: "trace s2 = trace s1 @ word_calls (split_words mnemonic) 0 1 @
                                  word_calls (split_words mnemonic) 1 1"
    by simp_all
  have tr1: "trace s1 = trace s @
     (if separated then [ConfigSetUnfinishedBackup True, ConfigSetNeedsBackup False] else [])"
    by (simp add: s1_def backup_intent_def)
  from assms(6) r d tr tr1
  have "trace (reset_backup e separated mnemonic s) =
     trace s @
     (if separated then [ConfigSetUnfinishedBackup True, ConfigSetNeedsBackup False] else []) @
     word_calls (split_words mnemonic) 0 1 @
     word_calls (split_words mnemonic) 1 1 @
     completion_calls e separated mnemonic"
    unfolding reset_backup_def start
    by (simp add: config_getNeedsBackup_def completion_calls_def call_defs Let_def)
  then show ?thesis
    by (simp add: split_words_tokens[OF assms(1)])
qed

text \<open>
  The witness of C6: the inline backup of "ab cd", and the separated backup of "ab cd "
  (with a space at the end) on a device that owes one, every word confirmed.
\<close>

theorem reset_backup_two_passes_witness:
  "trace (reset_backup env_yes False ''ab cd'' s0) =
     [LayoutResetWord ''ab'' 0 1 False, ProtectButton ButtonRequest_ConfirmWord True,
      LayoutResetWord ''cd'' 0 2 True, ProtectButton ButtonRequest_ConfirmWord True,
      LayoutResetWord ''ab'' 1 1 False, ProtectButton ButtonRequest_ConfirmWord True,
      LayoutResetWord ''cd'' 1 2 True, ProtectButton ButtonRequest_ConfirmWord True,
      ConfigSetUnfinishedBackup False, ConfigSetNeedsBackup False, ConfigSetMnemonic ''ab cd'',
      FsmSendSuccess ''Device successfully initialized'', LayoutHome] \<and>
   trace (reset_backup env_yes True ''ab cd '' s_owed) =
     [ConfigSetUnfinishedBackup True, ConfigSetNeedsBackup False,
      LayoutResetWord ''ab'' 0 1 False, ProtectButton ButtonRequest_ConfirmWord True,
      LayoutResetWord ''cd'' 0 2 True, ProtectButton ButtonRequest_ConfirmWord True,
      LayoutResetWord ''ab'' 1 1 False, ProtectButton ButtonRequest_ConfirmWord True,
      LayoutResetWord ''cd'' 1 2 True, ProtectButton ButtonRequest_ConfirmWord True,
      ConfigSetUnfinishedBackup False, FsmSendSuccess ''Seed successfully backed up'',
      LayoutHome]"
  using reset_backup_two_passes [of "''ab cd''" env_yes s0 False]
    reset_backup_two_passes [of "''ab cd ''" env_yes s_owed True]
  by (simp add: s0_def s_owed_def cfg0_def env_yes_def completion_calls_def)

text \<open>
  The counterexample of C6. The mnemonic "ab " is not empty and its two space-delimited
  tokens, "ab" and the empty token after the space, fit the buffer. With every word
  confirmed, each pass displays "ab" only, with the last-word flag set: the second token
  is not traversed, and the flag is set on a word that does not end the string.
\<close>

theorem reset_backup_two_passes_counterexample:
  "tokens ''ab '' = [''ab'', []] \<and>
   trace (reset_backup env_yes False ''ab '' s0) =
     [LayoutResetWord ''ab'' 0 1 True, ProtectButton ButtonRequest_ConfirmWord True,
      LayoutResetWord ''ab'' 1 1 True, ProtectButton ButtonRequest_ConfirmWord True,
      ConfigSetUnfinishedBackup False, ConfigSetNeedsBackup False, ConfigSetMnemonic ''ab '',
      FsmSendSuccess ''Device successfully initialized'', LayoutHome]"
  by (simp add: reset_backup_def call_defs Let_def env_yes_def s0_def loop_simps)

text \<open>
  C7, as the code has it. The claim says that every error path calls \<open>layoutHome\<close> and
  leaves no session state behind. What the code does, path by path:

  \<^item> \<open>reset_init\<close> with a strength other than 128, 192 or 256 returns at once: no call,
    no failure, the state as it was.
  \<^item> \<open>reset_init\<close> with a valid strength that fails a gate (the request asks to display
    the entropy and to skip the backup, the user declines a dialog, the PIN setup fails)
    ends with \<open>layoutHome\<close> as its last call. It leaves \<open>awaiting_entropy\<close> and the store
    as they were, so a session that was pending stays pending; \<open>strength\<close>, \<open>skip_backup\<close>
    and \<open>no_backup\<close> hold the values of the failed request; \<open>int_entropy\<close> holds the fresh
    random bytes once the create-wallet dialog was confirmed.
  \<^item> \<open>reset_entropy\<close> outside reset mode sends the failure and returns: no
    \<open>layoutHome\<close>, the state as it was.
  \<^item> \<open>reset_entropy\<close> in reset mode calls \<open>layoutHome\<close> on every path and then only
    clears the mnemonic; it returns with \<open>awaiting_entropy\<close> false on every path, and
    leaves \<open>strength\<close>, \<open>skip_backup\<close> and \<open>no_backup\<close> as they were. When the store
    refuses the mnemonic in the direct persistence, the flag written just before
    (\<open>no_backup\<close>, or \<open>needs_backup\<close> true) stays in the store.
  \<^item> A separated \<open>reset_backup\<close> that is not owed sends the failure and returns: no
    \<open>layoutHome\<close>, the state as it was.
  \<^item> \<open>reset_backup\<close> past its guard makes the flag writes of a separated backup, then
    word calls, then either the cancel calls or the completion calls; both contain
    \<open>layoutHome\<close>. Cancelled, a separated backup leaves \<open>unfinished_backup\<close> true and
    \<open>needs_backup\<close> false in the store, and an inline backup leaves the store as it was.
    Completed, an inline backup whose store refuses the mnemonic leaves both flags false
    and no mnemonic stored. The session statics are as they were.
\<close>

theorem failures_return_home:
  fixes e dr st pp pin lang lab u2f skip nb s ext_entropy separated mnemonic
  defines "s' \<equiv> reset_init e dr st pp pin lang lab u2f skip nb s"
    and "m \<equiv> fst (reset_entropy_mix e ext_entropy (s\<lparr>awaiting_entropy := False\<rparr>))"
    and "r \<equiv> reset_entropy e ext_entropy s"
    and "b \<equiv> reset_backup e separated mnemonic s"
    and "completed \<equiv> fst (backup_passes e separated mnemonic 0 (backup_intent separated s))"
  shows
   "(st \<noteq> 128 \<and> st \<noteq> 192 \<and> st \<noteq> 256 \<longrightarrow> s' = s) \<and>
    ((st = 128 \<or> st = 192 \<or> st = 256) \<and>
     \<not> (gates_passed e dr pin s \<and> \<not> (dr \<and> (skip \<or> nb))) \<longrightarrow>
       (\<exists>new. trace s' = trace s @ new @ [LayoutHome]) \<and>
       awaiting_entropy s' = awaiting_entropy s \<and> cfg s' = cfg s \<and>
       strength s' = st \<and> skip_backup s' = skip \<and> no_backup s' = nb \<and>
       int_entropy s' =
         (if button_answer e (presses s) \<and> \<not> (dr \<and> (skip \<or> nb))
          then random_buffer e (int_entropy s) 32 else int_entropy s)) \<and>
    (\<not> awaiting_entropy s \<longrightarrow>
       r = s\<lparr>trace := trace s @
             [FsmSendFailure Failure_UnexpectedMessage (Some ''Not in Reset mode'')]\<rparr>) \<and>
    (awaiting_entropy s \<longrightarrow>
       (\<exists>new. trace r = trace s @ new @ [MnemonicClear] \<and> LayoutHome \<in> set new) \<and>
       strength r = strength s \<and> skip_backup r = skip_backup s \<and>
       no_backup r = no_backup s) \<and>
    \<not> awaiting_entropy r \<and>
    (awaiting_entropy s \<and> (skip_backup s \<or> no_backup s) \<and> \<not> storage_ok e m \<longrightarrow>
       cfg r = (if no_backup s then (cfg s)\<lparr>cfg_no_backup := True\<rparr>
                else (cfg s)\<lparr>cfg_needs_backup := True\<rparr>)) \<and>
    (separated \<and> \<not> cfg_needs_backup (cfg s) \<longrightarrow>
       b = s\<lparr>trace := trace s @
             [FsmSendFailure Failure_UnexpectedMessage (Some ''Seed already backed up'')]\<rparr>) \<and>
    ((separated \<longrightarrow> cfg_needs_backup (cfg s)) \<longrightarrow>
       (\<exists>t. list_all word_call t \<and>
          trace b =
            trace s @
            (if separated then [ConfigSetUnfinishedBackup True, ConfigSetNeedsBackup False]
             else []) @
            t @
            (if completed then completion_calls e separated mnemonic
             else cancel_calls separated)) \<and>
       cfg b =
         (if \<not> completed then
            (if separated
             then (cfg s)\<lparr>cfg_needs_backup := False, cfg_unfinished_backup := True\<rparr>
             else cfg s)
          else if separated
            then (cfg s)\<lparr>cfg_needs_backup := False, cfg_unfinished_backup := False\<rparr>
          else if storage_ok e mnemonic
            then (cfg s)\<lparr>cfg_needs_backup := False, cfg_unfinished_backup := False,
                         cfg_mnemonic := Some mnemonic\<rparr>
          else (cfg s)\<lparr>cfg_needs_backup := False, cfg_unfinished_backup := False\<rparr>) \<and>
       strength b = strength s \<and> int_entropy b = int_entropy s \<and>
       awaiting_entropy b = awaiting_entropy s \<and> skip_backup b = skip_backup s \<and>
       no_backup b = no_backup s)"
proof -
  have init_invalid: "st \<noteq> 128 \<and> st \<noteq> 192 \<and> st \<noteq> 256 \<longrightarrow> s' = s"
    unfolding s'_def reset_init_eq_outcome
    by (simp add: reset_init_outcome_def Let_def)
  have init_error: "(st = 128 \<or> st = 192 \<or> st = 256) \<and>
     \<not> (gates_passed e dr pin s \<and> \<not> (dr \<and> (skip \<or> nb))) \<longrightarrow>
       (\<exists>new. trace s' = trace s @ new @ [LayoutHome]) \<and>
       awaiting_entropy s' = awaiting_entropy s \<and> cfg s' = cfg s \<and>
       strength s' = st \<and> skip_backup s' = skip \<and> no_backup s' = nb \<and>
       int_entropy s' =
         (if button_answer e (presses s) \<and> \<not> (dr \<and> (skip \<or> nb))
          then random_buffer e (int_entropy s) 32 else int_entropy s)"
  proof (intro impI, elim conjE)
    assume valid: "st = 128 \<or> st = 192 \<or> st = 256"
      and fails: "\<not> (gates_passed e dr pin s \<and> \<not> (dr \<and> (skip \<or> nb)))"
    have tr: "\<exists>new. trace s' = trace s @ new @ [LayoutHome]"
    proof (cases "dr \<and> (skip \<or> nb)")
      case True
      with valid have "trace s' = trace s @
          [FsmSendFailure Failure_ProcessError
             (Some ''Can't show internal entropy when backup is skipped'')] @ [LayoutHome]"
        unfolding s'_def reset_init_eq_outcome
        by (auto simp: reset_init_outcome_def Let_def)
      then show ?thesis
        by blast
    next
      case compatible: False
      show ?thesis
      proof (cases "button_answer e (presses s)")
        case False
        with valid compatible have "trace s' = trace s @
            [create_wallet_dialog, ProtectButton ButtonRequest_ProtectCall False,
             FsmSendFailure Failure_ActionCancelled None] @ [LayoutHome]"
          unfolding s'_def reset_init_eq_outcome
          by (auto simp: reset_init_outcome_def Let_def)
        then show ?thesis
          by blast
      next
        case yes1: True
        show ?thesis
        proof (cases "dr \<and> \<not> button_answer e (Suc (presses s))")
          case True
          with valid compatible yes1 have "trace s' = trace s @
              [create_wallet_dialog, ProtectButton ButtonRequest_ProtectCall False,
               entropy_dialog e (random_buffer e (int_entropy s) 32),
               ProtectButton ButtonRequest_ResetDevice False,
               FsmSendFailure Failure_ActionCancelled None] @ [LayoutHome]"
            unfolding s'_def reset_init_eq_outcome
            by (auto simp: reset_init_outcome_def Let_def)
          then show ?thesis
            by blast
        next
          case yes2: False
          with fails compatible yes1 have pinf: "pin \<and> \<not> pin_answer e"
            by (auto simp: gates_passed_def)
          with valid compatible yes1 yes2 have "trace s' = trace s @
              ([create_wallet_dialog, ProtectButton ButtonRequest_ProtectCall False] @
               (if dr then [entropy_dialog e (random_buffer e (int_entropy s) 32),
                            ProtectButton ButtonRequest_ResetDevice False]
                else []) @
               [ProtectChangePin False]) @ [LayoutHome]"
            unfolding s'_def reset_init_eq_outcome
            by (auto simp: reset_init_outcome_def Let_def)
          then show ?thesis
            by blast
        qed
      qed
    qed
    have rest: "awaiting_entropy s' = awaiting_entropy s \<and> cfg s' = cfg s \<and>
       strength s' = st \<and> skip_backup s' = skip \<and> no_backup s' = nb \<and>
       int_entropy s' =
         (if button_answer e (presses s) \<and> \<not> (dr \<and> (skip \<or> nb))
          then random_buffer e (int_entropy s) 32 else int_entropy s)"
      using valid fails unfolding s'_def reset_init_eq_outcome
      by (auto simp: reset_init_outcome_def gates_passed_def Let_def)
    from tr rest show "(\<exists>new. trace s' = trace s @ new @ [LayoutHome]) \<and>
       awaiting_entropy s' = awaiting_entropy s \<and> cfg s' = cfg s \<and>
       strength s' = st \<and> skip_backup s' = skip \<and> no_backup s' = nb \<and>
       int_entropy s' =
         (if button_answer e (presses s) \<and> \<not> (dr \<and> (skip \<or> nb))
          then random_buffer e (int_entropy s) 32 else int_entropy s)"
      by simp
  qed
  have entropy_reject: "\<not> awaiting_entropy s \<longrightarrow>
       r = s\<lparr>trace := trace s @
             [FsmSendFailure Failure_UnexpectedMessage (Some ''Not in Reset mode'')]\<rparr>"
    by (simp add: r_def reset_entropy_def call_defs)
  define s1 where "s1 = snd (reset_entropy_mix e ext_entropy (s\<lparr>awaiting_entropy := False\<rparr>))"
  have s1: "skip_backup s1 = skip_backup s" "no_backup s1 = no_backup s" "cfg s1 = cfg s"
    "trace s1 = trace s" "strength s1 = strength s"
    unfolding s1_def by (simp_all add: reset_entropy_mix_def Let_def)
  have entropy_run: "awaiting_entropy s \<longrightarrow>
       (\<exists>new. trace r = trace s @ new @ [MnemonicClear] \<and> LayoutHome \<in> set new) \<and>
       strength r = strength s \<and> skip_backup r = skip_backup s \<and>
       no_backup r = no_backup s"
  proof
    assume a: "awaiting_entropy s"
    have run: "r = mnemonic_clear (reset_entropy_dispatch e m s1)"
      using a unfolding r_def m_def s1_def by (rule reset_entropy_run)
    from reset_entropy_dispatch_home[of e m s1]
    obtain new where new: "trace (reset_entropy_dispatch e m s1) = trace s1 @ new"
      "LayoutHome \<in> set new"
      by blast
    then have "trace r = trace s @ new @ [MnemonicClear] \<and> LayoutHome \<in> set new"
      by (simp add: run s1 mnemonic_clear_def emit_def)
    then have "\<exists>new. trace r = trace s @ new @ [MnemonicClear] \<and> LayoutHome \<in> set new"
      by blast
    moreover have "strength r = strength s \<and> skip_backup r = skip_backup s \<and>
       no_backup r = no_backup s"
      using reset_entropy_dispatch_statics[of e m s1]
      by (simp add: run s1 mnemonic_clear_def emit_def)
    ultimately show "(\<exists>new. trace r = trace s @ new @ [MnemonicClear] \<and> LayoutHome \<in> set new) \<and>
       strength r = strength s \<and> skip_backup r = skip_backup s \<and>
       no_backup r = no_backup s"
      by simp
  qed
  have entropy_done: "\<not> awaiting_entropy r"
    unfolding r_def by (rule reset_entropy_not_awaiting)
  have store_refuses: "awaiting_entropy s \<and> (skip_backup s \<or> no_backup s) \<and>
      \<not> storage_ok e m \<longrightarrow>
       cfg r = (if no_backup s then (cfg s)\<lparr>cfg_no_backup := True\<rparr>
                else (cfg s)\<lparr>cfg_needs_backup := True\<rparr>)"
  proof (intro impI, elim conjE)
    assume a: "awaiting_entropy s" and f: "skip_backup s \<or> no_backup s"
      and st: "\<not> storage_ok e m"
    have run: "r = mnemonic_clear (reset_entropy_dispatch e m s1)"
      using a unfolding r_def m_def s1_def by (rule reset_entropy_run)
    from f st s1 show "cfg r = (if no_backup s then (cfg s)\<lparr>cfg_no_backup := True\<rparr>
                else (cfg s)\<lparr>cfg_needs_backup := True\<rparr>)"
      unfolding run
      by (auto simp: reset_entropy_dispatch_def call_defs Let_def)
  qed
  have backup_reject: "separated \<and> \<not> cfg_needs_backup (cfg s) \<longrightarrow>
       b = s\<lparr>trace := trace s @
             [FsmSendFailure Failure_UnexpectedMessage (Some ''Seed already backed up'')]\<rparr>"
    by (simp add: b_def reset_backup_def call_defs)
  have backup_run: "(separated \<longrightarrow> cfg_needs_backup (cfg s)) \<longrightarrow>
       (\<exists>t. list_all word_call t \<and>
          trace b =
            trace s @
            (if separated then [ConfigSetUnfinishedBackup True, ConfigSetNeedsBackup False]
             else []) @
            t @
            (if completed then completion_calls e separated mnemonic
             else cancel_calls separated)) \<and>
       cfg b =
         (if \<not> completed then
            (if separated
             then (cfg s)\<lparr>cfg_needs_backup := False, cfg_unfinished_backup := True\<rparr>
             else cfg s)
          else if separated
            then (cfg s)\<lparr>cfg_needs_backup := False, cfg_unfinished_backup := False\<rparr>
          else if storage_ok e mnemonic
            then (cfg s)\<lparr>cfg_needs_backup := False, cfg_unfinished_backup := False,
                         cfg_mnemonic := Some mnemonic\<rparr>
          else (cfg s)\<lparr>cfg_needs_backup := False, cfg_unfinished_backup := False\<rparr>) \<and>
       strength b = strength s \<and> int_entropy b = int_entropy s \<and>
       awaiting_entropy b = awaiting_entropy s \<and> skip_backup b = skip_backup s \<and>
       no_backup b = no_backup s"
  proof
    assume "separated \<longrightarrow> cfg_needs_backup (cfg s)"
    then have "separated \<Longrightarrow> cfg_needs_backup (cfg s)"
      by simp
    from reset_backup_run_done[of separated s e mnemonic, OF this]
    obtain t where t: "list_all word_call t"
      and tr: "trace b = trace (backup_intent separated s) @ t @
         (if completed then completion_calls e separated mnemonic else cancel_calls separated)"
      and c: "cfg b =
         (if completed then completion_cfg e separated mnemonic (cfg (backup_intent separated s))
          else cfg (backup_intent separated s))"
      and st: "strength b = strength s" "int_entropy b = int_entropy s"
        "awaiting_entropy b = awaiting_entropy s" "skip_backup b = skip_backup s"
        "no_backup b = no_backup s"
      unfolding b_def completed_def by blast
    from t tr have "list_all word_call t \<and>
          trace b =
            trace s @
            (if separated then [ConfigSetUnfinishedBackup True, ConfigSetNeedsBackup False]
             else []) @
            t @
            (if completed then completion_calls e separated mnemonic
             else cancel_calls separated)"
      by (simp add: backup_intent_def)
    then have "\<exists>t. list_all word_call t \<and>
          trace b =
            trace s @
            (if separated then [ConfigSetUnfinishedBackup True, ConfigSetNeedsBackup False]
             else []) @
            t @
            (if completed then completion_calls e separated mnemonic
             else cancel_calls separated)"
      by blast
    moreover from c have "cfg b =
         (if \<not> completed then
            (if separated
             then (cfg s)\<lparr>cfg_needs_backup := False, cfg_unfinished_backup := True\<rparr>
             else cfg s)
          else if separated
            then (cfg s)\<lparr>cfg_needs_backup := False, cfg_unfinished_backup := False\<rparr>
          else if storage_ok e mnemonic
            then (cfg s)\<lparr>cfg_needs_backup := False, cfg_unfinished_backup := False,
                         cfg_mnemonic := Some mnemonic\<rparr>
          else (cfg s)\<lparr>cfg_needs_backup := False, cfg_unfinished_backup := False\<rparr>)"
      by (simp add: backup_intent_def completion_cfg_def)
    ultimately show "(\<exists>t. list_all word_call t \<and>
          trace b =
            trace s @
            (if separated then [ConfigSetUnfinishedBackup True, ConfigSetNeedsBackup False]
             else []) @
            t @
            (if completed then completion_calls e separated mnemonic
             else cancel_calls separated)) \<and>
       cfg b =
         (if \<not> completed then
            (if separated
             then (cfg s)\<lparr>cfg_needs_backup := False, cfg_unfinished_backup := True\<rparr>
             else cfg s)
          else if separated
            then (cfg s)\<lparr>cfg_needs_backup := False, cfg_unfinished_backup := False\<rparr>
          else if storage_ok e mnemonic
            then (cfg s)\<lparr>cfg_needs_backup := False, cfg_unfinished_backup := False,
                         cfg_mnemonic := Some mnemonic\<rparr>
          else (cfg s)\<lparr>cfg_needs_backup := False, cfg_unfinished_backup := False\<rparr>) \<and>
       strength b = strength s \<and> int_entropy b = int_entropy s \<and>
       awaiting_entropy b = awaiting_entropy s \<and> skip_backup b = skip_backup s \<and>
       no_backup b = no_backup s"
      using st by simp
  qed
  from init_invalid init_error entropy_reject entropy_run entropy_done store_refuses
    backup_reject backup_run
  show ?thesis
    by (intro conjI)
qed

text \<open>
  The witness of C7: a request with strength 100; a declined create-wallet confirmation;
  an entropy message outside reset mode and one in reset mode; a direct persistence that
  the store refuses; a separated backup that is not owed, and one that is owed and
  declined at the first word.
\<close>

theorem failures_return_home_witness:
  "reset_init env_yes False 100 False False None None 0 False False s0 = s0 \<and>
   last (trace (reset_init env_no False 128 False False None None 0 False False s0)) =
     LayoutHome \<and>
   strength (reset_init env_no False 128 False False None None 0 False False s0) = 128 \<and>
   cfg (reset_init env_no False 128 False False None None 0 False False s0) = cfg0 \<and>
   \<not> awaiting_entropy (reset_init env_no False 128 False False None None 0 False False s0) \<and>
   int_entropy (reset_init env_no False 128 False False None None 0 False False s0) =
     replicate 32 0 \<and>
   reset_entropy env_yes [1, 2, 3] s0 =
     s0\<lparr>trace := [FsmSendFailure Failure_UnexpectedMessage (Some ''Not in Reset mode'')]\<rparr> \<and>
   LayoutHome \<in> set (trace (reset_entropy env_yes [1, 2, 3] s_await)) \<and>
   strength (reset_entropy env_yes [1, 2, 3] s_await) = 128 \<and>
   \<not> awaiting_entropy (reset_entropy env_yes [1, 2, 3] s_await) \<and>
   cfg (reset_entropy env_store_fails [1, 2, 3] (s_await\<lparr>skip_backup := True\<rparr>)) =
     cfg0\<lparr>cfg_needs_backup := True\<rparr> \<and>
   reset_backup env_yes True ''ab cd'' s0 =
     s0\<lparr>trace := [FsmSendFailure Failure_UnexpectedMessage (Some ''Seed already backed up'')]\<rparr> \<and>
   LayoutHome \<in> set (trace (reset_backup env_no True ''ab cd'' s_owed)) \<and>
   cfg (reset_backup env_no True ''ab cd'' s_owed) =
     cfg0\<lparr>cfg_needs_backup := False, cfg_unfinished_backup := True\<rparr> \<and>
   \<not> awaiting_entropy (reset_backup env_no True ''ab cd'' s_owed)"
proof -
  have declined: "\<not> fst (backup_passes env_no True ''ab cd'' 0 (backup_intent True s_owed))"
    by (simp add: backup_intent_def s_owed_def s0_def cfg0_def env_no_def env_yes_def
        loop_simps call_defs Let_def)
  have invalid: "reset_init env_yes False 100 False False None None 0 False False s0 = s0"
    using failures_return_home [where e = env_yes and s = s0 and st = 100 and dr = False
        and skip = False and nb = False and pin = False and pp = False and lang = None
        and lab = None and ?u2f = 0 and ext_entropy = "[]" and separated = False
        and mnemonic = "[]"]
    by simp
  have cancelled:
    "last (trace (reset_init env_no False 128 False False None None 0 False False s0)) =
       LayoutHome \<and>
     strength (reset_init env_no False 128 False False None None 0 False False s0) = 128 \<and>
     cfg (reset_init env_no False 128 False False None None 0 False False s0) = cfg0 \<and>
     \<not> awaiting_entropy (reset_init env_no False 128 False False None None 0 False False s0) \<and>
     int_entropy (reset_init env_no False 128 False False None None 0 False False s0) =
       replicate 32 0"
    using failures_return_home [where e = env_no and s = s0 and st = 128 and dr = False
        and skip = False and nb = False and pin = False and pp = False and lang = None
        and lab = None and ?u2f = 0 and ext_entropy = "[]" and separated = False
        and mnemonic = "[]"]
    by (auto simp: s0_def env_no_def env_yes_def gates_passed_def)
  have outside:
    "reset_entropy env_yes [1, 2, 3] s0 =
       s0\<lparr>trace := [FsmSendFailure Failure_UnexpectedMessage (Some ''Not in Reset mode'')]\<rparr> \<and>
     reset_backup env_yes True ''ab cd'' s0 =
       s0\<lparr>trace := [FsmSendFailure Failure_UnexpectedMessage
                        (Some ''Seed already backed up'')]\<rparr>"
    using failures_return_home [where e = env_yes and s = s0 and st = 100 and dr = False
        and skip = False and nb = False and pin = False and pp = False and lang = None
        and lab = None and ?u2f = 0 and ext_entropy = "[1, 2, 3]" and separated = True
        and mnemonic = "''ab cd''"]
    by (simp add: s0_def cfg0_def)
  have inside:
    "LayoutHome \<in> set (trace (reset_entropy env_yes [1, 2, 3] s_await)) \<and>
     strength (reset_entropy env_yes [1, 2, 3] s_await) = 128 \<and>
     \<not> awaiting_entropy (reset_entropy env_yes [1, 2, 3] s_await)"
    using failures_return_home [where e = env_yes and s = s_await and st = 100 and dr = False
        and skip = False and nb = False and pin = False and pp = False and lang = None
        and lab = None and ?u2f = 0 and ext_entropy = "[1, 2, 3]" and separated = False
        and mnemonic = "[]"]
    by (auto simp: s_await_def s0_def)
  have refused:
    "cfg (reset_entropy env_store_fails [1, 2, 3] (s_await\<lparr>skip_backup := True\<rparr>)) =
       cfg0\<lparr>cfg_needs_backup := True\<rparr>"
    using failures_return_home [where e = env_store_fails
        and s = "s_await\<lparr>skip_backup := True\<rparr>" and st = 100 and dr = False
        and skip = False and nb = False and pin = False and pp = False and lang = None
        and lab = None and ?u2f = 0 and ext_entropy = "[1, 2, 3]" and separated = False
        and mnemonic = "[]"]
    by (simp add: s_await_def s0_def env_store_fails_def)
  have owed:
    "LayoutHome \<in> set (trace (reset_backup env_no True ''ab cd'' s_owed)) \<and>
     cfg (reset_backup env_no True ''ab cd'' s_owed) =
       cfg0\<lparr>cfg_needs_backup := False, cfg_unfinished_backup := True\<rparr> \<and>
     \<not> awaiting_entropy (reset_backup env_no True ''ab cd'' s_owed)"
    using failures_return_home [where e = env_no and s = s_owed and st = 100 and dr = False
        and skip = False and nb = False and pin = False and pp = False and lang = None
        and lab = None and ?u2f = 0 and ext_entropy = "[]" and separated = True
        and mnemonic = "''ab cd''"] declined
    by (auto simp: s_owed_def s0_def cfg0_def cancel_calls_def)
  from invalid cancelled outside inside refused owed show ?thesis
    by simp
qed

text \<open>
  The counterexample of C7. On a device that awaits no entropy and owes no backup, the
  failure is the only call of \<open>reset_entropy\<close> and of a separated \<open>reset_backup\<close>, and a
  reset request with strength 100 makes no call at all: \<open>layoutHome\<close> is not called. On
  \<open>s_pending\<close>, which awaits entropy for a request with strength 128 and an inline backup,
  a second request that asks to display the entropy and to skip the backup is rejected
  and the device goes home, yet it still awaits entropy, now with strength 256 and
  \<open>skip_backup\<close> set. A direct persistence that the store refuses leaves \<open>needs_backup\<close>
  true in the store, with no mnemonic.
\<close>

theorem failures_return_home_counterexample:
  "trace (reset_entropy env_yes [] s0) =
     [FsmSendFailure Failure_UnexpectedMessage (Some ''Not in Reset mode'')] \<and>
   trace (reset_backup env_yes True ''ab cd'' s0) =
     [FsmSendFailure Failure_UnexpectedMessage (Some ''Seed already backed up'')] \<and>
   reset_init env_yes False 100 False False None None 0 False False s0 = s0 \<and>
   awaiting_entropy s_pending \<and> strength s_pending = 128 \<and> \<not> skip_backup s_pending \<and>
   trace (reset_init env_yes True 256 False False None None 0 True False s_pending) =
     trace s_pending @
     [FsmSendFailure Failure_ProcessError
        (Some ''Can't show internal entropy when backup is skipped''), LayoutHome] \<and>
   awaiting_entropy (reset_init env_yes True 256 False False None None 0 True False s_pending) \<and>
   strength (reset_init env_yes True 256 False False None None 0 True False s_pending) = 256 \<and>
   skip_backup (reset_init env_yes True 256 False False None None 0 True False s_pending) \<and>
   cfg (reset_entropy env_store_fails [1, 2, 3] (s_await\<lparr>skip_backup := True\<rparr>)) =
     cfg0\<lparr>cfg_needs_backup := True\<rparr>"
proof -
  have pending: "awaiting_entropy s_pending \<and> strength s_pending = 128 \<and>
      \<not> skip_backup s_pending"
    by (simp add: s_pending_def reset_init_eq_outcome reset_init_outcome_def Let_def
        env_yes_def s0_def)
  have second:
    "reset_init env_yes True 256 False False None None 0 True False s_pending =
       s_pending\<lparr>strength := 256, skip_backup := True, no_backup := False,
         trace := trace s_pending @
           [FsmSendFailure Failure_ProcessError
              (Some ''Can't show internal entropy when backup is skipped''), LayoutHome]\<rparr>"
    by (simp add: reset_init_eq_outcome reset_init_outcome_def Let_def)
  have rejections:
    "trace (reset_entropy env_yes [] s0) =
       [FsmSendFailure Failure_UnexpectedMessage (Some ''Not in Reset mode'')] \<and>
     trace (reset_backup env_yes True ''ab cd'' s0) =
       [FsmSendFailure Failure_UnexpectedMessage (Some ''Seed already backed up'')] \<and>
     reset_init env_yes False 100 False False None None 0 False False s0 = s0"
    by (simp add: reset_entropy_def reset_backup_def reset_init_def call_defs s0_def cfg0_def)
  have refused:
    "cfg (reset_entropy env_store_fails [1, 2, 3] (s_await\<lparr>skip_backup := True\<rparr>)) =
       cfg0\<lparr>cfg_needs_backup := True\<rparr>"
    by (simp add: reset_entropy_def reset_entropy_dispatch_def reset_entropy_mix_def
        sha256_Init_def sha256_Update_def sha256_Final_def mnemonic_from_data_def memzero_def
        call_defs Let_def s_await_def s0_def env_store_fails_def env_yes_def)
  from pending second rejections refused show ?thesis
    by simp
qed

text \<open>
  C8. \<open>reset_init\<close> writes the four settings of the request (passphrase protection,
  language, label, U2F counter) last, before the entropy request, after the create-wallet
  confirmation, the entropy display when there is one and the PIN setup when there is
  one. When a gate is not passed, or the strength is invalid, or the options are
  incompatible, the configuration store is left as it was and none of the four setters is
  called.
\<close>

theorem reset_init_settings_after_gates:
  fixes e dr st pp pin lang lab u2f skip nb s
  defines "s' \<equiv> reset_init e dr st pp pin lang lab u2f skip nb s"
  shows
  "(\<not> (gates_passed e dr pin s \<and> (st = 128 \<or> st = 192 \<or> st = 256) \<and> \<not> (dr \<and> (skip \<or> nb))) \<longrightarrow>
      cfg s' = cfg s \<and> \<not> list_ex setting_call (drop (length (trace s)) (trace s'))) \<and>
   (gates_passed e dr pin s \<and> (st = 128 \<or> st = 192 \<or> st = 256) \<and> \<not> (dr \<and> (skip \<or> nb)) \<longrightarrow>
      cfg s' = (cfg s)\<lparr>cfg_passphrase_protection := pp, cfg_language := lang,
                         cfg_label := lab, cfg_u2f_counter := u2f\<rparr> \<and>
      (\<exists>d1 d2. dialog_call d1 \<and> dialog_call d2 \<and>
         trace s' =
           trace s @ [d1, ProtectButton ButtonRequest_ProtectCall False] @
           (if dr then [d2, ProtectButton ButtonRequest_ResetDevice False] else []) @
           (if pin then [ProtectChangePin False] else []) @
           [ConfigSetPassphraseProtection pp, ConfigSetLanguage lang, ConfigSetLabel lab,
            ConfigSetU2FCounter u2f, MsgWriteEntropyRequest]))"
proof (intro conjI impI)
  assume "\<not> (gates_passed e dr pin s \<and> (st = 128 \<or> st = 192 \<or> st = 256) \<and> \<not> (dr \<and> (skip \<or> nb)))"
  then show "cfg s' = cfg s" "\<not> list_ex setting_call (drop (length (trace s)) (trace s'))"
    unfolding s'_def reset_init_eq_outcome
    by (auto simp: reset_init_outcome_def gates_passed_def Let_def create_wallet_dialog_def
        entropy_dialog_def)
next
  assume a: "gates_passed e dr pin s \<and> (st = 128 \<or> st = 192 \<or> st = 256) \<and> \<not> (dr \<and> (skip \<or> nb))"
  then show "cfg s' = (cfg s)\<lparr>cfg_passphrase_protection := pp, cfg_language := lang,
                         cfg_label := lab, cfg_u2f_counter := u2f\<rparr>"
    unfolding s'_def reset_init_eq_outcome
    by (auto simp: reset_init_outcome_def gates_passed_def Let_def)
  have "dialog_call create_wallet_dialog"
    "dialog_call (entropy_dialog e (random_buffer e (int_entropy s) 32))"
    by (simp_all add: create_wallet_dialog_def entropy_dialog_def)
  moreover from a have "trace s' =
           trace s @ [create_wallet_dialog, ProtectButton ButtonRequest_ProtectCall False] @
           (if dr then [entropy_dialog e (random_buffer e (int_entropy s) 32),
                        ProtectButton ButtonRequest_ResetDevice False] else []) @
           (if pin then [ProtectChangePin False] else []) @
           [ConfigSetPassphraseProtection pp, ConfigSetLanguage lang, ConfigSetLabel lab,
            ConfigSetU2FCounter u2f, MsgWriteEntropyRequest]"
    unfolding s'_def reset_init_eq_outcome
    by (auto simp: reset_init_outcome_def gates_passed_def Let_def)
  ultimately show "\<exists>d1 d2. dialog_call d1 \<and> dialog_call d2 \<and>
         trace s' =
           trace s @ [d1, ProtectButton ButtonRequest_ProtectCall False] @
           (if dr then [d2, ProtectButton ButtonRequest_ResetDevice False] else []) @
           (if pin then [ProtectChangePin False] else []) @
           [ConfigSetPassphraseProtection pp, ConfigSetLanguage lang, ConfigSetLabel lab,
            ConfigSetU2FCounter u2f, MsgWriteEntropyRequest]"
    by blast
qed

text \<open>
  The witness of C8: the same request with a PIN setup that fails, and with every gate
  passed.
\<close>

theorem reset_init_settings_after_gates_witness:
  "cfg (reset_init env_pin_fails True 256 True True (Some ''english'') (Some ''My wallet'') 7
         False False s0) = cfg0 \<and>
   cfg (reset_init env_yes True 256 True True (Some ''english'') (Some ''My wallet'') 7
         False False s0) =
     cfg0\<lparr>cfg_passphrase_protection := True, cfg_language := Some ''english'',
          cfg_label := Some ''My wallet'', cfg_u2f_counter := 7\<rparr> \<and>
   (\<exists>d1 d2. dialog_call d1 \<and> dialog_call d2 \<and>
      trace (reset_init env_yes True 256 True True (Some ''english'') (Some ''My wallet'') 7
               False False s0) =
        [d1, ProtectButton ButtonRequest_ProtectCall False,
         d2, ProtectButton ButtonRequest_ResetDevice False, ProtectChangePin False,
         ConfigSetPassphraseProtection True, ConfigSetLanguage (Some ''english''),
         ConfigSetLabel (Some ''My wallet''), ConfigSetU2FCounter 7, MsgWriteEntropyRequest])"
  using reset_init_settings_after_gates [of env_pin_fails True True s0 256 False False True
      "Some ''english''" "Some ''My wallet''" 7]
    reset_init_settings_after_gates [of env_yes True True s0 256 False False True
      "Some ''english''" "Some ''My wallet''" 7]
  by (simp add: gates_passed_def env_pin_fails_def env_yes_def s0_def)

text \<open>
  C9. In reset mode, with \<open>m\<close> the mnemonic derived and \<open>s1\<close> the state after the
  derivation (lines 100 to 108): when \<open>no_backup\<close> is set, \<open>reset_entropy\<close> sets the
  permanent flag, stores the mnemonic, replies success or the failure \<open>ProcessError\<close> as
  the store answers, goes home and clears the mnemonic; when \<open>skip_backup\<close> is set and
  \<open>no_backup\<close> is not, the same with \<open>needs_backup\<close> set to true. When neither is set it
  calls \<open>reset_backup\<close> inline on \<open>m\<close> and then only clears the mnemonic: its calls are
  word calls, then, when both passes are complete, the clearing of the two backup flags,
  the store of \<open>m\<close>, the reply as the store answers and \<open>layoutHome\<close>, and otherwise the
  cancel calls, with nothing stored; then the clearing of the mnemonic. No call of this
  path stores the mnemonic or replies other than those of \<open>reset_backup\<close>. Both passes
  are complete when the user confirms every word.
\<close>

theorem reset_entropy_dispatch_on_flags:
  fixes e ext_entropy s
  defines "m \<equiv> fst (reset_entropy_mix e ext_entropy (s\<lparr>awaiting_entropy := False\<rparr>))"
    and "s1 \<equiv> snd (reset_entropy_mix e ext_entropy (s\<lparr>awaiting_entropy := False\<rparr>))"
  defines "reply \<equiv>
      (if storage_ok e m then FsmSendSuccess ''Device successfully initialized''
       else FsmSendFailure Failure_ProcessError (Some ''Failed to store mnemonic''))"
    and "completed \<equiv> fst (backup_passes e False m 0 s1)"
  assumes "awaiting_entropy s"
  shows
   "(no_backup s \<longrightarrow>
       reset_entropy e ext_entropy s =
         s1\<lparr>cfg := (if storage_ok e m
                      then (cfg s)\<lparr>cfg_no_backup := True, cfg_mnemonic := Some m\<rparr>
                      else (cfg s)\<lparr>cfg_no_backup := True\<rparr>),
            trace := trace s @
              [ConfigSetNoBackup, ConfigSetMnemonic m, reply, LayoutHome, MnemonicClear]\<rparr>) \<and>
    (skip_backup s \<and> \<not> no_backup s \<longrightarrow>
       reset_entropy e ext_entropy s =
         s1\<lparr>cfg := (if storage_ok e m
                      then (cfg s)\<lparr>cfg_needs_backup := True, cfg_mnemonic := Some m\<rparr>
                      else (cfg s)\<lparr>cfg_needs_backup := True\<rparr>),
            trace := trace s @
              [ConfigSetNeedsBackup True, ConfigSetMnemonic m, reply, LayoutHome, MnemonicClear]\<rparr>) \<and>
    (\<not> skip_backup s \<and> \<not> no_backup s \<longrightarrow>
       reset_entropy e ext_entropy s = mnemonic_clear (reset_backup e False m s1) \<and>
       (\<exists>t. list_all word_call t \<and>
          trace (reset_entropy e ext_entropy s) =
            trace s @ t @
            (if completed
             then [ConfigSetUnfinishedBackup False, ConfigSetNeedsBackup False,
                   ConfigSetMnemonic m, reply, LayoutHome]
             else [SessionClear True, LayoutHome, FsmSendFailure Failure_ActionCancelled None]) @
            [MnemonicClear]) \<and>
       cfg (reset_entropy e ext_entropy s) =
         (if \<not> completed then cfg s
          else if storage_ok e m
            then (cfg s)\<lparr>cfg_needs_backup := False, cfg_unfinished_backup := False,
                         cfg_mnemonic := Some m\<rparr>
          else (cfg s)\<lparr>cfg_needs_backup := False, cfg_unfinished_backup := False\<rparr>) \<and>
       ((\<forall>k. button_answer e k) \<longrightarrow> completed))"
proof -
  have run: "reset_entropy e ext_entropy s = mnemonic_clear (reset_entropy_dispatch e m s1)"
    using assms(5) unfolding m_def s1_def by (rule reset_entropy_run)
  have s1: "skip_backup s1 = skip_backup s" "no_backup s1 = no_backup s" "cfg s1 = cfg s"
    "trace s1 = trace s"
    unfolding s1_def by (simp_all add: reset_entropy_mix_def Let_def)
  have direct:
   "(no_backup s \<longrightarrow>
       reset_entropy e ext_entropy s =
         s1\<lparr>cfg := (if storage_ok e m
                      then (cfg s)\<lparr>cfg_no_backup := True, cfg_mnemonic := Some m\<rparr>
                      else (cfg s)\<lparr>cfg_no_backup := True\<rparr>),
            trace := trace s @
              [ConfigSetNoBackup, ConfigSetMnemonic m, reply, LayoutHome, MnemonicClear]\<rparr>) \<and>
    (skip_backup s \<and> \<not> no_backup s \<longrightarrow>
       reset_entropy e ext_entropy s =
         s1\<lparr>cfg := (if storage_ok e m
                      then (cfg s)\<lparr>cfg_needs_backup := True, cfg_mnemonic := Some m\<rparr>
                      else (cfg s)\<lparr>cfg_needs_backup := True\<rparr>),
            trace := trace s @
              [ConfigSetNeedsBackup True, ConfigSetMnemonic m, reply, LayoutHome, MnemonicClear]\<rparr>)"
    unfolding run reply_def using s1
    by (simp add: reset_entropy_dispatch_def call_defs Let_def)
  have inline: "\<not> skip_backup s \<and> \<not> no_backup s \<longrightarrow>
       reset_entropy e ext_entropy s = mnemonic_clear (reset_backup e False m s1) \<and>
       (\<exists>t. list_all word_call t \<and>
          trace (reset_entropy e ext_entropy s) =
            trace s @ t @
            (if completed
             then [ConfigSetUnfinishedBackup False, ConfigSetNeedsBackup False,
                   ConfigSetMnemonic m, reply, LayoutHome]
             else [SessionClear True, LayoutHome, FsmSendFailure Failure_ActionCancelled None]) @
            [MnemonicClear]) \<and>
       cfg (reset_entropy e ext_entropy s) =
         (if \<not> completed then cfg s
          else if storage_ok e m
            then (cfg s)\<lparr>cfg_needs_backup := False, cfg_unfinished_backup := False,
                         cfg_mnemonic := Some m\<rparr>
          else (cfg s)\<lparr>cfg_needs_backup := False, cfg_unfinished_backup := False\<rparr>) \<and>
       ((\<forall>k. button_answer e k) \<longrightarrow> completed)"
  proof (intro impI, elim conjE)
    assume flags: "\<not> skip_backup s" "\<not> no_backup s"
    have eq: "reset_entropy e ext_entropy s = mnemonic_clear (reset_backup e False m s1)"
      unfolding run using flags s1 by (simp add: reset_entropy_dispatch_def)
    from reset_backup_run_done[of False s1 e m]
    have "\<exists>t. list_all word_call t \<and>
        trace (reset_backup e False m s1) = trace (backup_intent False s1) @ t @
          (if completed then completion_calls e False m else cancel_calls False) \<and>
        cfg (reset_backup e False m s1) =
          (if completed then completion_cfg e False m (cfg (backup_intent False s1))
           else cfg (backup_intent False s1))"
      unfolding completed_def by (auto simp: backup_intent_def)
    then obtain t where t: "list_all word_call t"
      and tr: "trace (reset_backup e False m s1) = trace (backup_intent False s1) @ t @
         (if completed then completion_calls e False m else cancel_calls False)"
      and c: "cfg (reset_backup e False m s1) =
         (if completed then completion_cfg e False m (cfg (backup_intent False s1))
          else cfg (backup_intent False s1))"
      by blast
    from t tr have "list_all word_call t \<and>
          trace (reset_entropy e ext_entropy s) =
            trace s @ t @
            (if completed
             then [ConfigSetUnfinishedBackup False, ConfigSetNeedsBackup False,
                   ConfigSetMnemonic m, reply, LayoutHome]
             else [SessionClear True, LayoutHome, FsmSendFailure Failure_ActionCancelled None]) @
            [MnemonicClear]"
      unfolding eq reply_def
      by (simp add: s1 backup_intent_def completion_calls_def cancel_calls_def
          mnemonic_clear_def emit_def)
    then have tr': "\<exists>t. list_all word_call t \<and>
          trace (reset_entropy e ext_entropy s) =
            trace s @ t @
            (if completed
             then [ConfigSetUnfinishedBackup False, ConfigSetNeedsBackup False,
                   ConfigSetMnemonic m, reply, LayoutHome]
             else [SessionClear True, LayoutHome, FsmSendFailure Failure_ActionCancelled None]) @
            [MnemonicClear]"
      by blast
    from c have c': "cfg (reset_entropy e ext_entropy s) =
         (if \<not> completed then cfg s
          else if storage_ok e m
            then (cfg s)\<lparr>cfg_needs_backup := False, cfg_unfinished_backup := False,
                         cfg_mnemonic := Some m\<rparr>
          else (cfg s)\<lparr>cfg_needs_backup := False, cfg_unfinished_backup := False\<rparr>)"
      unfolding eq
      by (simp add: s1 backup_intent_def completion_cfg_def mnemonic_clear_def emit_def)
    have all: "(\<forall>k. button_answer e k) \<longrightarrow> completed"
      unfolding completed_def using backup_passes_all_confirmed[of e False m s1] by simp
    from eq tr' c' all
    show "reset_entropy e ext_entropy s = mnemonic_clear (reset_backup e False m s1) \<and>
       (\<exists>t. list_all word_call t \<and>
          trace (reset_entropy e ext_entropy s) =
            trace s @ t @
            (if completed
             then [ConfigSetUnfinishedBackup False, ConfigSetNeedsBackup False,
                   ConfigSetMnemonic m, reply, LayoutHome]
             else [SessionClear True, LayoutHome, FsmSendFailure Failure_ActionCancelled None]) @
            [MnemonicClear]) \<and>
       cfg (reset_entropy e ext_entropy s) =
         (if \<not> completed then cfg s
          else if storage_ok e m
            then (cfg s)\<lparr>cfg_needs_backup := False, cfg_unfinished_backup := False,
                         cfg_mnemonic := Some m\<rparr>
          else (cfg s)\<lparr>cfg_needs_backup := False, cfg_unfinished_backup := False\<rparr>) \<and>
       ((\<forall>k. button_answer e k) \<longrightarrow> completed)"
      by (intro conjI)
  qed
  show ?thesis
    by (rule conjI[OF conjunct1[OF direct] conjI[OF conjunct2[OF direct] inline]])
qed

text \<open>
  The witness of C9: \<open>no_backup\<close> with a store that accepts, \<open>skip_backup\<close> with a store
  that refuses, neither flag with a user who confirms every word of "ab cd", and neither
  flag with a user who declines the first word.
\<close>

theorem reset_entropy_dispatch_on_flags_witness:
  "reset_entropy env_yes [1, 2, 3] (s_await\<lparr>no_backup := True\<rparr>) =
     s_await\<lparr>awaiting_entropy := False, no_backup := True,
       cfg := cfg0\<lparr>cfg_no_backup := True, cfg_mnemonic := Some ''ab cd''\<rparr>,
       trace := [ConfigSetNoBackup, ConfigSetMnemonic ''ab cd'',
                 FsmSendSuccess ''Device successfully initialized'', LayoutHome, MnemonicClear]\<rparr> \<and>
   reset_entropy env_store_fails [1, 2, 3] (s_await\<lparr>skip_backup := True\<rparr>) =
     s_await\<lparr>awaiting_entropy := False, skip_backup := True,
       cfg := cfg0\<lparr>cfg_needs_backup := True\<rparr>,
       trace := [ConfigSetNeedsBackup True, ConfigSetMnemonic ''ab cd'',
                 FsmSendFailure Failure_ProcessError (Some ''Failed to store mnemonic''),
                 LayoutHome, MnemonicClear]\<rparr> \<and>
   trace (reset_entropy env_yes [1, 2, 3] s_await) =
     [LayoutResetWord ''ab'' 0 1 False, ProtectButton ButtonRequest_ConfirmWord True,
      LayoutResetWord ''cd'' 0 2 True, ProtectButton ButtonRequest_ConfirmWord True,
      LayoutResetWord ''ab'' 1 1 False, ProtectButton ButtonRequest_ConfirmWord True,
      LayoutResetWord ''cd'' 1 2 True, ProtectButton ButtonRequest_ConfirmWord True,
      ConfigSetUnfinishedBackup False, ConfigSetNeedsBackup False, ConfigSetMnemonic ''ab cd'',
      FsmSendSuccess ''Device successfully initialized'', LayoutHome, MnemonicClear] \<and>
   cfg (reset_entropy env_yes [1, 2, 3] s_await) = cfg0\<lparr>cfg_mnemonic := Some ''ab cd''\<rparr> \<and>
   trace (reset_entropy env_no [1, 2, 3] s_await) =
     [LayoutResetWord ''ab'' 0 1 False, ProtectButton ButtonRequest_ConfirmWord True,
      SessionClear True, LayoutHome, FsmSendFailure Failure_ActionCancelled None,
      MnemonicClear] \<and>
   cfg (reset_entropy env_no [1, 2, 3] s_await) = cfg0"
proof -
  have mix: "reset_entropy_mix env_yes [1, 2, 3] (s_await\<lparr>awaiting_entropy := False\<rparr>) =
      (''ab cd'', s_await\<lparr>awaiting_entropy := False\<rparr>)"
    "reset_entropy_mix env_no [1, 2, 3] (s_await\<lparr>awaiting_entropy := False\<rparr>) =
      (''ab cd'', s_await\<lparr>awaiting_entropy := False\<rparr>)"
    by (simp_all add: s_await_def s0_def env_yes_def env_no_def reset_entropy_mix_def
        sha256_Init_def sha256_Update_def sha256_Final_def mnemonic_from_data_def memzero_def
        Let_def)
  have direct:
    "reset_entropy env_yes [1, 2, 3] (s_await\<lparr>no_backup := True\<rparr>) =
       s_await\<lparr>awaiting_entropy := False, no_backup := True,
         cfg := cfg0\<lparr>cfg_no_backup := True, cfg_mnemonic := Some ''ab cd''\<rparr>,
         trace := [ConfigSetNoBackup, ConfigSetMnemonic ''ab cd'',
                   FsmSendSuccess ''Device successfully initialized'', LayoutHome, MnemonicClear]\<rparr> \<and>
     reset_entropy env_store_fails [1, 2, 3] (s_await\<lparr>skip_backup := True\<rparr>) =
       s_await\<lparr>awaiting_entropy := False, skip_backup := True,
         cfg := cfg0\<lparr>cfg_needs_backup := True\<rparr>,
         trace := [ConfigSetNeedsBackup True, ConfigSetMnemonic ''ab cd'',
                   FsmSendFailure Failure_ProcessError (Some ''Failed to store mnemonic''),
                   LayoutHome, MnemonicClear]\<rparr>"
    using reset_entropy_dispatch_on_flags [of "s_await\<lparr>no_backup := True\<rparr>" env_yes "[1, 2, 3]"]
      reset_entropy_dispatch_on_flags [of "s_await\<lparr>skip_backup := True\<rparr>" env_store_fails "[1, 2, 3]"]
    by (simp add: s_await_def s0_def env_yes_def env_store_fails_def reset_entropy_mix_def
        sha256_Init_def sha256_Update_def sha256_Final_def mnemonic_from_data_def memzero_def
        Let_def)
  have confirmed:
    "trace (reset_entropy env_yes [1, 2, 3] s_await) =
       [LayoutResetWord ''ab'' 0 1 False, ProtectButton ButtonRequest_ConfirmWord True,
        LayoutResetWord ''cd'' 0 2 True, ProtectButton ButtonRequest_ConfirmWord True,
        LayoutResetWord ''ab'' 1 1 False, ProtectButton ButtonRequest_ConfirmWord True,
        LayoutResetWord ''cd'' 1 2 True, ProtectButton ButtonRequest_ConfirmWord True,
        ConfigSetUnfinishedBackup False, ConfigSetNeedsBackup False, ConfigSetMnemonic ''ab cd'',
        FsmSendSuccess ''Device successfully initialized'', LayoutHome, MnemonicClear] \<and>
     cfg (reset_entropy env_yes [1, 2, 3] s_await) = cfg0\<lparr>cfg_mnemonic := Some ''ab cd''\<rparr>"
    using reset_entropy_dispatch_on_flags [of s_await env_yes "[1, 2, 3]"]
    unfolding mix fst_conv snd_conv
    by (simp add: s_await_def s0_def cfg0_def env_yes_def reset_backup_def call_defs Let_def
        loop_simps)
  have declined:
    "trace (reset_entropy env_no [1, 2, 3] s_await) =
       [LayoutResetWord ''ab'' 0 1 False, ProtectButton ButtonRequest_ConfirmWord True,
        SessionClear True, LayoutHome, FsmSendFailure Failure_ActionCancelled None,
        MnemonicClear] \<and>
     cfg (reset_entropy env_no [1, 2, 3] s_await) = cfg0"
    using reset_entropy_dispatch_on_flags [of s_await env_no "[1, 2, 3]"]
    unfolding mix fst_conv snd_conv
    by (simp add: s_await_def s0_def cfg0_def env_no_def env_yes_def reset_backup_def
        call_defs Let_def loop_simps)
  from direct confirmed declined show ?thesis
    by simp
qed

text \<open>
  C10, as the code has it. With the empty mnemonic, \<open>reset_backup\<close> past its guard
  displays no word and asks for no confirmation, and clears \<open>unfinished_backup\<close>. A
  separated backup then replies success. An inline backup clears \<open>needs_backup\<close> and
  writes the empty mnemonic to the store; it replies success when the store accepts it,
  and the failure \<open>ProcessError\<close> when it does not. The claim leaves the second case out.
\<close>

theorem reset_backup_empty_mnemonic:
  assumes "separated \<longrightarrow> cfg_needs_backup (cfg s)"
  shows "reset_backup e separated [] s =
     (if separated then
        s\<lparr>cfg := (cfg s)\<lparr>cfg_needs_backup := False, cfg_unfinished_backup := False\<rparr>,
          trace := trace s @
            [ConfigSetUnfinishedBackup True, ConfigSetNeedsBackup False,
             ConfigSetUnfinishedBackup False, FsmSendSuccess ''Seed successfully backed up'',
             LayoutHome]\<rparr>
      else if storage_ok e [] then
        s\<lparr>cfg := (cfg s)\<lparr>cfg_needs_backup := False, cfg_unfinished_backup := False,
                        cfg_mnemonic := Some []\<rparr>,
          trace := trace s @
            [ConfigSetUnfinishedBackup False, ConfigSetNeedsBackup False, ConfigSetMnemonic [],
             FsmSendSuccess ''Device successfully initialized'', LayoutHome]\<rparr>
      else
        s\<lparr>cfg := (cfg s)\<lparr>cfg_needs_backup := False, cfg_unfinished_backup := False\<rparr>,
          trace := trace s @
            [ConfigSetUnfinishedBackup False, ConfigSetNeedsBackup False, ConfigSetMnemonic [],
             FsmSendFailure Failure_ProcessError (Some ''Failed to store mnemonic''),
             LayoutHome]\<rparr>)"
  using assms
  by (simp add: reset_backup_def backup_passes_empty call_defs Let_def)

text \<open>The witness of C10: a separated backup that is owed, and an inline backup.\<close>

theorem reset_backup_empty_mnemonic_witness:
  "reset_backup env_yes True [] s_owed =
     s_owed\<lparr>cfg := cfg0,
       trace := [ConfigSetUnfinishedBackup True, ConfigSetNeedsBackup False,
                 ConfigSetUnfinishedBackup False, FsmSendSuccess ''Seed successfully backed up'',
                 LayoutHome]\<rparr> \<and>
   reset_backup env_yes False [] s0 =
     s0\<lparr>cfg := cfg0\<lparr>cfg_mnemonic := Some []\<rparr>,
       trace := [ConfigSetUnfinishedBackup False, ConfigSetNeedsBackup False, ConfigSetMnemonic [],
                 FsmSendSuccess ''Device successfully initialized'', LayoutHome]\<rparr>"
  using reset_backup_empty_mnemonic [of True s_owed env_yes]
    reset_backup_empty_mnemonic [of False s0 env_yes]
  by (simp add: s_owed_def s0_def cfg0_def env_yes_def)

text \<open>
  The counterexample of C10: an inline backup of the empty mnemonic with a store that
  refuses it replies with a failure, not with success.
\<close>

theorem reset_backup_empty_mnemonic_counterexample:
  "trace (reset_backup env_store_fails False [] s0) =
     [ConfigSetUnfinishedBackup False, ConfigSetNeedsBackup False, ConfigSetMnemonic [],
      FsmSendFailure Failure_ProcessError (Some ''Failed to store mnemonic''), LayoutHome]"
  by (simp add: reset_backup_def backup_passes_empty call_defs Let_def env_store_fails_def
      env_yes_def s0_def)

end
